theory Spec2Isabelle
  imports Complex_Main "HOL-Library.Multiset" "HOL-Library.Sublist" "HOL-Library.Log_Nat"
begin

section \<open>Data model (types.ts)\<close>

text \<open>
  Amounts are JavaScript numbers holding whole cents; they are modelled as \<open>int\<close>.
  A \<open>Date\<close> built from an expense's ISO string is modelled by the values the code reads
  from it: the local calendar fields, the time value and the UTC day of its ISO form.
\<close>

record Member =
  m_id :: string
  m_name :: string
  avatarUrl :: string

record Category =
  c_id :: string
  c_name :: string
  icon :: string

record Rule =
  r_id :: string
  keyword :: string
  r_categoryId :: string

record Split =
  memberId :: string
  amount :: int

record JsDate =
  getFullYear :: int
  getMonth :: nat
  getDate :: nat
  getTime :: int
  isoDay :: string

record NewExpense =
  e_description :: string
  e_amount :: int
  e_date :: JsDate
  e_memberId :: string
  e_categoryId :: string
  splits :: "Split list"

record Expense = NewExpense +
  e_id :: string

record Budget =
  b_id :: string
  b_categoryId :: string
  b_amount :: int

datatype NotificationType = Info | Warning | Error | Success

record Notification =
  n_id :: string
  message :: string
  n_date :: string
  n_type :: NotificationType
  isRead :: bool

text \<open>The fields of \<open>Household\<close> that the modelled operations read.\<close>

record Household =
  members :: "Member list"
  categories :: "Category list"
  rules :: "Rule list"
  expenses :: "Expense list"
  budgets :: "Budget list"
  notifications :: "Notification list"

section \<open>JavaScript numbers\<close>

text \<open>
  A JavaScript number is an IEEE 754 double. \<open>fl x\<close> is the double nearest to the
  rational \<open>x\<close>, ties going to the even significand: 53 significant bits at the binary
  exponent \<open>expo \<bar>x\<bar>\<close>, the floor of the binary logarithm. Overflow to \<open>Infinity\<close>
  (from \<open>2^1024\<close>) and subnormal results (below \<open>2^-1022\<close>) are outside the model.
  Whole amounts are kept as \<open>int\<close>; where a modelled operation divides them or prints
  them, the double result is rounded by \<open>fl\<close>.
\<close>

definition expo :: "rat \<Rightarrow> int" where
  "expo x = (if 1 \<le> x then bitlen \<lfloor>x\<rfloor> - 1 else - bitlen (\<lceil>1 / x\<rceil> - 1))"

definition roundHalfEven :: "rat \<Rightarrow> int" where
  "roundHalfEven q =
     (let f = \<lfloor>q\<rfloor>; d = q - of_int f
      in if d < 1 / 2 then f else if 1 / 2 < d then f + 1 else if even f then f else f + 1)"

definition fl :: "rat \<Rightarrow> rat" where
  "fl x =
     (if x = 0 then 0
      else let u = 2 powi (expo \<bar>x\<bar> - 52)
           in sgn x * (of_int (roundHalfEven (\<bar>x\<bar> / u)) * u))"

section \<open>AddExpenseModal: equal split\<close>

text \<open>
  \<open>handleSplitEqually\<close> replaces the form's splits (third argument: the splits held
  before the call) unless the total is not positive or there is no member. The quotient
  \<open>totalAmountCents / memberCount\<close> is a double, rounded before \<open>Math.floor\<close>; \<open>%\<close>
  on positive whole numbers is exact, so it is \<open>mod\<close>; the sum \<open>baseAmount + 1\<close> is
  rounded again. The rounded sum is a whole number (lemma \<open>fl_of_int_whole\<close> below), so
  the floor around it only changes its type.
\<close>

definition handleSplitEqually :: "int \<Rightarrow> Household \<Rightarrow> Split list \<Rightarrow> Split list" where
  "handleSplitEqually totalAmountCents household prevSplits =
     (if totalAmountCents \<le> 0 \<or> length (members household) = 0 then prevSplits
      else
        let memberCount = int (length (members household));
            baseAmount = \<lfloor>fl (of_int totalAmountCents / of_int memberCount)\<rfloor>;
            remainder = totalAmountCents mod memberCount
        in map (\<lambda>(index, member).
                  \<lparr>memberId = m_id member,
                   amount = \<lfloor>fl (of_int (baseAmount + (if int index < remainder then 1 else 0)))\<rfloor>\<rparr>)
               (enumerate 0 (members household)))"

text \<open>A household of three members, used in the examples.\<close>

definition abc :: "Member list" where
  "abc = [\<lparr>m_id = ''mem-1'', m_name = ''Alex'', avatarUrl = ''''\<rparr>,
          \<lparr>m_id = ''mem-2'', m_name = ''Bea'', avatarUrl = ''''\<rparr>,
          \<lparr>m_id = ''mem-3'', m_name = ''Cy'', avatarUrl = ''''\<rparr>]"

definition abcHousehold :: Household where
  "abcHousehold = \<lparr>members = abc, categories = [], rules = [], expenses = [], budgets = [],
                    notifications = []\<rparr>"

section \<open>AddExpenseModal: submission\<close>

text \<open>
  \<open>String.prototype.trim\<close> on the ASCII white space characters (space, tab, line
  feed, vertical tab, form feed, carriage return).
\<close>

definition isWhiteSpace :: "char \<Rightarrow> bool" where
  "isWhiteSpace ch = (ch \<in> set [CHR 0x20, CHR 0x09, CHR 0x0A, CHR 0x0B, CHR 0x0C, CHR 0x0D])"

definition trim :: "string \<Rightarrow> string" where
  "trim s = rev (dropWhile isWhiteSpace (rev (dropWhile isWhiteSpace s)))"

text \<open>
  The state of the form when it is submitted. \<open>f_totalAmountCents\<close> is the memoised
  \<open>Math.round(parseFloat(amount || '0') * 100)\<close>; \<open>f_date\<close> is \<open>new Date(date)\<close>,
  \<open>None\<close> for an invalid date, on which \<open>toISOString\<close> throws.
\<close>

record Form =
  f_description :: string
  f_totalAmountCents :: int
  f_categoryId :: string
  f_memberId :: string
  f_date :: "JsDate option"
  f_splits :: "Split list"

definition totalSplitAmount :: "Split list \<Rightarrow> int" where
  "totalSplitAmount ss = foldl (\<lambda>sum split. sum + amount split) 0 ss"

definition remainingAmount :: "Form \<Rightarrow> int" where
  "remainingAmount f = f_totalAmountCents f - totalSplitAmount (f_splits f)"

datatype SubmitResult =
    Rejected
  | RangeError
  | Submitted NewExpense

definition handleSubmit :: "Form \<Rightarrow> SubmitResult" where
  "handleSubmit f =
     (if trim (f_description f) = [] \<or> f_totalAmountCents f \<le> 0 \<or> f_categoryId f = []
         \<or> f_memberId f = [] \<or> \<bar>remainingAmount f\<bar> > 0
      then Rejected
      else case f_date f of
             None \<Rightarrow> RangeError
           | Some d \<Rightarrow>
               Submitted \<lparr>e_description = trim (f_description f),
                          e_amount = f_totalAmountCents f,
                          e_date = d,
                          e_memberId = f_memberId f,
                          e_categoryId = f_categoryId f,
                          splits = filter (\<lambda>s. amount s > 0) (f_splits f)\<rparr>)"

text \<open>A calendar day, for the examples: only the fields are given, the time value is 0.\<close>

definition day :: "int \<Rightarrow> nat \<Rightarrow> nat \<Rightarrow> JsDate" where
  "day y m d = \<lparr>getFullYear = y, getMonth = m, getDate = d, getTime = 0, isoDay = ''''\<rparr>"

text \<open>
  A form that passes the submit check with a negative share: 10.00 in total,
  15.00 for the first member and -5.00 for the second.
\<close>

definition negativeShareForm :: Form where
  "negativeShareForm =
     \<lparr>f_description = ''Dinner'', f_totalAmountCents = 1000, f_categoryId = ''cat-1'',
      f_memberId = ''mem-1'', f_date = Some (day 2025 2 14),
      f_splits = [\<lparr>memberId = ''mem-1'', amount = 1500\<rparr>,
                  \<lparr>memberId = ''mem-2'', amount = - 500\<rparr>]\<rparr>"

section \<open>App: adding an expense\<close>

text \<open>
  What \<open>handleAddExpense\<close> reads from its environment: the results of the successive
  calls to \<open>crypto.randomUUID()\<close>, the time value of the first instant of the current
  month (\<open>new Date(now.getFullYear(), now.getMonth(), 1)\<close>), the ISO form of the current
  time, and the currency text that \<open>Intl.NumberFormat\<close> produces for an amount in cents.
\<close>

record Env =
  randomUUID :: "nat \<Rightarrow> string"
  startOfMonth :: int
  nowISO :: string
  formatCurrencyForNotif :: "int \<Rightarrow> string"

text \<open>
  The first part of \<open>handleAddExpense\<close>, the budget alert check: the notifications it
  pushes. \<open>budget.amount * 0.9\<close> is taken over the reals.
\<close>

definition spentBefore :: "Env \<Rightarrow> Household \<Rightarrow> NewExpense \<Rightarrow> int" where
  "spentBefore env household newExpense =
     (let expensesForCategoryThisMonth =
            filter (\<lambda>e. e_categoryId e = e_categoryId newExpense
                        \<and> getTime (e_date e) \<ge> startOfMonth env)
                   (expenses household)
      in foldl (\<lambda>sum e. sum + e_amount e) 0 expensesForCategoryThisMonth)"

definition categoryName :: "Household \<Rightarrow> NewExpense \<Rightarrow> string" where
  "categoryName household newExpense =
     (case find (\<lambda>c. c_id c = e_categoryId newExpense) (categories household) of
        None \<Rightarrow> ''a category''
      | Some c \<Rightarrow> if c_name c = [] then ''a category'' else c_name c)"

definition budgetExceeded :: "Env \<Rightarrow> Household \<Rightarrow> NewExpense \<Rightarrow> Budget \<Rightarrow> Notification" where
  "budgetExceeded env household newExpense budget =
     \<lparr>n_id = ''notif-budget-exceeded-'' @ randomUUID env 1,
      message = ''You've exceeded your '' @ formatCurrencyForNotif env (b_amount budget)
                @ '' budget for '' @ categoryName household newExpense @ ''!'',
      n_date = nowISO env, n_type = Error, isRead = False\<rparr>"

definition budgetWarning :: "Env \<Rightarrow> Household \<Rightarrow> NewExpense \<Rightarrow> Budget \<Rightarrow> Notification" where
  "budgetWarning env household newExpense budget =
     \<lparr>n_id = ''notif-budget-warning-'' @ randomUUID env 1,
      message = ''You're approaching your '' @ formatCurrencyForNotif env (b_amount budget)
                @ '' budget for '' @ categoryName household newExpense @ ''.'',
      n_date = nowISO env, n_type = Warning, isRead = False\<rparr>"

definition budgetAlertCheck :: "Env \<Rightarrow> Household \<Rightarrow> NewExpense \<Rightarrow> Notification list" where
  "budgetAlertCheck env household newExpense =
     (case find (\<lambda>b. b_categoryId b = e_categoryId newExpense) (budgets household) of
        None \<Rightarrow> []
      | Some budget \<Rightarrow>
          if b_amount budget > 0 then
            let before = spentBefore env household newExpense;
                spentAfter = before + e_amount newExpense;
                ninetyPercentBudget = real_of_int (b_amount budget) * 0.9
            in if before < b_amount budget \<and> spentAfter \<ge> b_amount budget
               then [budgetExceeded env household newExpense budget]
               else if real_of_int before < ninetyPercentBudget
                       \<and> real_of_int spentAfter \<ge> ninetyPercentBudget
                       \<and> spentAfter < b_amount budget
               then [budgetWarning env household newExpense budget]
               else []
          else [])"

text \<open>
  The second part, the anomaly detection check. \<open>detectAnomalousExpense\<close> awaits the
  language model and parses its answer; the outcome of the awaited promise is an input
  of the model. The \<open>catch\<close> block only logs.
\<close>

record AnomalyResult =
  isAnomalous :: bool
  reasoning :: string

datatype 'a Settled = Rejects | Resolves 'a

definition anomalyDetectionCheck ::
  "Env \<Rightarrow> nat \<Rightarrow> AnomalyResult Settled \<Rightarrow> Notification list" where
  "anomalyDetectionCheck env k outcome =
     (case outcome of
        Rejects \<Rightarrow> []
      | Resolves anomalyResult \<Rightarrow>
          if isAnomalous anomalyResult
          then [\<lparr>n_id = ''notif-anomaly-'' @ randomUUID env k,
                 message = ''Unusual Spending Alert: '' @ reasoning anomalyResult,
                 n_date = nowISO env, n_type = Warning, isRead = False\<rparr>]
          else [])"

definition notificationsToAdd ::
  "Env \<Rightarrow> Household \<Rightarrow> NewExpense \<Rightarrow> AnomalyResult Settled \<Rightarrow> Notification list" where
  "notificationsToAdd env household newExpense outcome =
     (let budgetNotifications = budgetAlertCheck env household newExpense
      in budgetNotifications
         @ anomalyDetectionCheck env (1 + length budgetNotifications) outcome)"

definition expenseWithId :: "Env \<Rightarrow> NewExpense \<Rightarrow> Expense" where
  "expenseWithId env newExpense =
     NewExpense.extend newExpense (Expense.fields (''exp-'' @ randomUUID env 0))"

text \<open>
  The store (services/db): the rows of the \<open>expenses\<close> table, each with its splits and
  its \<open>tripId\<close>, and the rows of the \<open>notifications\<close> table. \<open>None\<close> is the handle
  before the database is opened. \<open>addExpense\<close> runs one transaction; an insert fails on
  a primary key that is already there, and the transaction is rolled back.
\<close>

record Db =
  t_expenses :: "(Expense \<times> string option) list"
  t_notifications :: "Notification list"

definition addExpense :: "Db option \<Rightarrow> Expense \<Rightarrow> Notification list \<Rightarrow> Db option" where
  "addExpense db newExpense ns =
     (case db of
        None \<Rightarrow> None
      | Some d \<Rightarrow>
          if e_id newExpense \<in> set (map (\<lambda>r. e_id (fst r)) (t_expenses d))
             \<or> \<not> distinct (map n_id (t_notifications d @ ns))
          then Some d
          else Some (d\<lparr>t_expenses := t_expenses d @ [(newExpense, None)],
                       t_notifications := t_notifications d @ ns\<rparr>))"

definition handleAddExpense ::
  "Env \<Rightarrow> Household \<Rightarrow> Db option \<Rightarrow> NewExpense \<Rightarrow> AnomalyResult Settled \<Rightarrow> Db option" where
  "handleAddExpense env household db newExpense outcome =
     addExpense db (expenseWithId env newExpense)
       (notificationsToAdd env household newExpense outcome)"

text \<open>
  The example of the budget thresholds: one category with a budget of 2,000,000 cents
  and nothing spent, and an expense of 1,900,000 cents in that category.
\<close>

definition exampleEnv :: Env where
  "exampleEnv = \<lparr>randomUUID = (\<lambda>k. replicate (Suc k) CHR ''u''), startOfMonth = 1000,
                  nowISO = ''2025-03-15T10:00:00.000Z'', formatCurrencyForNotif = (\<lambda>a. ''INR'')\<rparr>"

definition budgetHousehold :: Household where
  "budgetHousehold =
     \<lparr>members = abc,
      categories = [\<lparr>c_id = ''cat-1'', c_name = ''Groceries'', icon = ''''\<rparr>],
      rules = [], expenses = [],
      budgets = [\<lparr>b_id = ''bud-1'', b_categoryId = ''cat-1'', b_amount = 2000000\<rparr>],
      notifications = []\<rparr>"

definition bigExpense :: NewExpense where
  "bigExpense = \<lparr>e_description = ''Party'', e_amount = 1900000, e_date = day 2025 2 15,
                 e_memberId = ''mem-1'', e_categoryId = ''cat-1'',
                 splits = [\<lparr>memberId = ''mem-1'', amount = 1900000\<rparr>]\<rparr>"

definition emptyDb :: Db where
  "emptyDb = \<lparr>t_expenses = [], t_notifications = []\<rparr>"

text \<open>
  A later month counted in the current one: the clock is in March 2025 (the month starts
  at 1740787200000), the only expense of the household, 1,900,000 cents in the budgeted
  category, is dated 20 April 2025, and 200,000 cents are added on 15 March.
\<close>

definition marchEnv :: Env where
  "marchEnv = \<lparr>randomUUID = (\<lambda>k. replicate (Suc k) CHR ''u''), startOfMonth = 1740787200000,
                nowISO = ''2025-03-15T10:00:00.000Z'', formatCurrencyForNotif = (\<lambda>a. ''INR'')\<rparr>"

definition aprilHousehold :: Household where
  "aprilHousehold =
     \<lparr>members = abc,
      categories = [\<lparr>c_id = ''cat-1'', c_name = ''Groceries'', icon = ''''\<rparr>],
      rules = [],
      expenses =
        [\<lparr>e_description = ''Party'', e_amount = 1900000,
          e_date = \<lparr>getFullYear = 2025, getMonth = 3, getDate = 20, getTime = 1745107200000,
                    isoDay = ''2025-04-20''\<rparr>,
          e_memberId = ''mem-1'', e_categoryId = ''cat-1'',
          splits = [\<lparr>memberId = ''mem-1'', amount = 1900000\<rparr>],
          e_id = ''exp-1''\<rparr>],
      budgets = [\<lparr>b_id = ''bud-1'', b_categoryId = ''cat-1'', b_amount = 2000000\<rparr>],
      notifications = []\<rparr>"

definition marchExpense :: NewExpense where
  "marchExpense =
     \<lparr>e_description = ''Snacks'', e_amount = 200000,
      e_date = \<lparr>getFullYear = 2025, getMonth = 2, getDate = 15, getTime = 1741996800000,
                isoDay = ''2025-03-15''\<rparr>,
      e_memberId = ''mem-1'', e_categoryId = ''cat-1'',
      splits = [\<lparr>memberId = ''mem-1'', amount = 200000\<rparr>]\<rparr>"

section \<open>Dashboard: monthly figures\<close>

text \<open>
  \<open>currentMonth\<close> is \<open>new Date().getMonth()\<close>. The object \<open>memberSpending\<close> is a map
  from member ids to numbers; the keys an object inherits from \<open>Object.prototype\<close> are
  not modelled.
\<close>

definition expensesThisMonth :: "nat \<Rightarrow> Household \<Rightarrow> Expense list" where
  "expensesThisMonth currentMonth household =
     filter (\<lambda>exp. getMonth (e_date exp) = currentMonth) (expenses household)"


text \<open>The amount spent against one budget, as the budget list of the dashboard shows it.\<close>

definition categorySpent :: "Expense list \<Rightarrow> Budget \<Rightarrow> int" where
  "categorySpent exps budget =
     foldl (\<lambda>sum e. sum + e_amount e) 0
       (filter (\<lambda>e. e_categoryId e = b_categoryId budget) exps)"

definition initSpending :: "Member list \<Rightarrow> (string \<rightharpoonup> int)" where
  "initSpending ms = foldl (\<lambda>memberSpending m. memberSpending(m_id m \<mapsto> 0)) Map.empty ms"

definition addSplit :: "(string \<rightharpoonup> int) \<Rightarrow> Split \<Rightarrow> (string \<rightharpoonup> int)" where
  "addSplit memberSpending split =
     (case memberSpending (memberId split) of
        None \<Rightarrow> memberSpending
      | Some v \<Rightarrow> memberSpending(memberId split \<mapsto> v + amount split))"

definition memberSpending :: "Member list \<Rightarrow> Expense list \<Rightarrow> (string \<rightharpoonup> int)" where
  "memberSpending ms exps =
     foldl (\<lambda>acc expense. foldl addSplit acc (splits expense)) (initSpending ms) exps"

record MemberSpent = Member +
  spent :: int

text \<open>
  \<open>Array.prototype.sort\<close> is stable, and so is \<open>sort_key\<close>; the comparator
  \<open>b.spent - a.spent\<close> orders by decreasing \<open>spent\<close>.
\<close>

definition spendingByMember :: "Member list \<Rightarrow> Expense list \<Rightarrow> MemberSpent list" where
  "spendingByMember ms exps =
     sort_key (\<lambda>r. - spent r)
       (map (\<lambda>m. Member.extend m (MemberSpent.fields (the (memberSpending ms exps (m_id m)))))
            ms)"

definition totalSpentByMembers :: "MemberSpent list \<Rightarrow> int" where
  "totalSpentByMembers rs = foldl (\<lambda>sum m. sum + spent m) 0 rs"

text \<open>
  For the statements: the sum of the split amounts that the expenses assign to the
  member id \<open>k\<close>, and an expense without the splits of ids that no member has.
\<close>

definition shareOf :: "string \<Rightarrow> Expense list \<Rightarrow> int" where
  "shareOf k exps = (\<Sum>e\<leftarrow>exps. \<Sum>s\<leftarrow>filter (\<lambda>s. memberId s = k) (splits e). amount s)"

definition knownSplits :: "Member list \<Rightarrow> Expense \<Rightarrow> Expense" where
  "knownSplits ms e = e\<lparr>splits := filter (\<lambda>s. memberId s \<in> m_id ` set ms) (splits e)\<rparr>"

text \<open>
  Three expenses of March: one fully split, one legacy row whose only split is less than
  its amount, and one whose split names a member that has left.
\<close>

definition marchExpenses :: "Expense list" where
  "marchExpenses =
     [\<lparr>e_description = ''Groceries'', e_amount = 1000, e_date = day 2025 2 3,
       e_memberId = ''mem-1'', e_categoryId = ''cat-1'',
       splits = [\<lparr>memberId = ''mem-1'', amount = 600\<rparr>, \<lparr>memberId = ''mem-2'', amount = 400\<rparr>],
       e_id = ''exp-1''\<rparr>,
      \<lparr>e_description = ''Bakery'', e_amount = 500, e_date = day 2025 2 5,
       e_memberId = ''mem-1'', e_categoryId = ''cat-1'',
       splits = [\<lparr>memberId = ''mem-1'', amount = 200\<rparr>],
       e_id = ''exp-2''\<rparr>,
      \<lparr>e_description = ''Cinema'', e_amount = 300, e_date = day 2025 2 9,
       e_memberId = ''mem-9'', e_categoryId = ''cat-2'',
       splits = [\<lparr>memberId = ''mem-9'', amount = 300\<rparr>],
       e_id = ''exp-3''\<rparr>]"

definition marchHousehold :: Household where
  "marchHousehold =
     \<lparr>members = abc,
      categories = [\<lparr>c_id = ''cat-1'', c_name = ''Groceries'', icon = ''''\<rparr>,
                    \<lparr>c_id = ''cat-2'', c_name = ''Fun, Games'', icon = ''''\<rparr>],
      rules = [], expenses = marchExpenses,
      budgets = [\<lparr>b_id = ''bud-1'', b_categoryId = ''cat-1'', b_amount = 2000000\<rparr>],
      notifications = []\<rparr>"

section \<open>expenseUtils: category suggestion\<close>

text \<open>
  \<open>toLowerCase\<close> on ASCII letters, and \<open>String.prototype.includes\<close>: the keyword
  occurs in the text as a contiguous run of characters.
\<close>

definition lowerChar :: "char \<Rightarrow> char" where
  "lowerChar ch =
     (case map_of (zip ''ABCDEFGHIJKLMNOPQRSTUVWXYZ'' ''abcdefghijklmnopqrstuvwxyz'') ch of
        None \<Rightarrow> ch
      | Some lower \<Rightarrow> lower)"

definition toLowerCase :: "string \<Rightarrow> string" where
  "toLowerCase s = map lowerChar s"

fun str_includes :: "string \<Rightarrow> string \<Rightarrow> bool" where
  "str_includes [] k = (k = [])"
| "str_includes (ch # s) k = (prefix k (ch # s) \<or> str_includes s k)"

text \<open>The \<open>for\<close> loop over the rules, returning at the first match.\<close>

fun firstMatch :: "string \<Rightarrow> Rule list \<Rightarrow> string option" where
  "firstMatch lowercasedDescription [] = None"
| "firstMatch lowercasedDescription (rule # rest) =
     (if str_includes lowercasedDescription (toLowerCase (keyword rule))
      then Some (r_categoryId rule)
      else firstMatch lowercasedDescription rest)"

definition suggestCategory :: "string \<Rightarrow> Rule list \<Rightarrow> Category list \<Rightarrow> string option" where
  "suggestCategory description ruleList categoryList =
     (let lowercasedDescription = toLowerCase description
      in firstMatch lowercasedDescription ruleList)"

definition netflixRules :: "Rule list" where
  "netflixRules = [\<lparr>r_id = ''rule-1'', keyword = ''netflix'', r_categoryId = ''cat-5''\<rparr>]"

section \<open>chartUtils: trend series\<close>

text \<open>
  \<open>now\<close> is \<open>new Date()\<close>, read through its local calendar fields (month 0 to 11).
  \<open>new Date(y, m, 0).getDate()\<close> is the last day of the month before month \<open>m\<close> of
  year \<open>y\<close> in the Gregorian calendar (\<open>lastDayBefore\<close>). Amounts divided by 100 and
  their running sums are taken over the reals; the rounding of floating point is not
  modelled. An entry of \<open>currentMonthData\<close> is a number or \<open>null\<close> (\<open>None\<close>).
\<close>

definition isLeapYear :: "int \<Rightarrow> bool" where
  "isLeapYear y = (y mod 4 = 0 \<and> (y mod 100 \<noteq> 0 \<or> y mod 400 = 0))"

definition daysInMonth :: "int \<Rightarrow> nat \<Rightarrow> nat" where
  "daysInMonth y m =
     (if m = 1 then (if isLeapYear y then 29 else 28)
      else if m = 3 \<or> m = 5 \<or> m = 8 \<or> m = 10 then 30
      else 31)"

definition lastDayBefore :: "int \<Rightarrow> nat \<Rightarrow> nat" where
  "lastDayBefore y m = (if m = 0 then daysInMonth (y - 1) 11 else daysInMonth y (m - 1))"

text \<open>\<open>Number.prototype.toString\<close> for a natural number.\<close>

fun digitsOf :: "nat \<Rightarrow> string" where
  "digitsOf n =
     (if n < 10 then [''0123456789'' ! n]
      else digitsOf (n div 10) @ [''0123456789'' ! (n mod 10)])"

declare digitsOf.simps [simp del]

text \<open>
  An assignment \<open>xs[i] = v\<close> to an array: beyond the end it lengthens the array,
  leaving empty slots (\<open>None\<close>) in between.
\<close>

definition arraySet :: "'a option list \<Rightarrow> nat \<Rightarrow> 'a option \<Rightarrow> 'a option list" where
  "arraySet xs i v =
     (if i < length xs then xs[i := v] else xs @ replicate (i - length xs) None @ [v])"

text \<open>
  \<open>temp[expenseDay] += x\<close>, which the source runs only for \<open>expenseDay\<close> below the
  length of \<open>temp\<close>; a negative index names no element.
\<close>

definition addToDay :: "real list \<Rightarrow> int \<Rightarrow> real \<Rightarrow> real list" where
  "addToDay temp expenseDay x =
     (if 0 \<le> expenseDay then temp[nat expenseDay := temp ! nat expenseDay + x] else temp)"

fun aggregateStep ::
  "JsDate \<Rightarrow> nat \<Rightarrow> nat \<Rightarrow> real list \<times> real list \<Rightarrow> Expense \<Rightarrow> real list \<times> real list" where
  "aggregateStep now daysInCurrentMonth daysInPreviousMonth (tempCurrent, tempPrevious) expense =
     (let currentYear = getFullYear now;
          currentMonth = getMonth now;
          expenseDate = e_date expense;
          expenseYear = getFullYear expenseDate;
          expenseMonth = getMonth expenseDate;
          expenseDay = int (getDate expenseDate) - 1
      in if expenseYear = currentYear \<and> expenseMonth = currentMonth
            \<and> expenseDay < int daysInCurrentMonth
         then (addToDay tempCurrent expenseDay (real_of_int (e_amount expense) / 100),
               tempPrevious)
         else if (currentMonth = 0 \<and> expenseYear = currentYear - 1 \<and> expenseMonth = 11)
                 \<or> (expenseYear = currentYear \<and> int expenseMonth = int currentMonth - 1)
         then (if expenseDay < int daysInPreviousMonth
               then (tempCurrent,
                     addToDay tempPrevious expenseDay (real_of_int (e_amount expense) / 100))
               else (tempCurrent, tempPrevious))
         else (tempCurrent, tempPrevious))"

text \<open>The two \<open>reduce\<close> calls that write the running sums, with accumulator and index.\<close>

fun fillCurrent :: "nat \<Rightarrow> real option list \<Rightarrow> real \<Rightarrow> nat \<Rightarrow> real list \<Rightarrow> real option list" where
  "fillCurrent today currentMonthData acc i [] = currentMonthData"
| "fillCurrent today currentMonthData acc i (val # rest) =
     fillCurrent today
       (arraySet currentMonthData i (if i < today then Some (acc + val) else None))
       (acc + val) (Suc i) rest"

fun fillPrevious :: "real list \<Rightarrow> real \<Rightarrow> nat \<Rightarrow> real list \<Rightarrow> real list" where
  "fillPrevious previousMonthData acc i [] = previousMonthData"
| "fillPrevious previousMonthData acc i (val # rest) =
     fillPrevious
       (if i < length previousMonthData then previousMonthData[i := acc + val]
        else previousMonthData)
       (acc + val) (Suc i) rest"

text \<open>The final adjustment of \<open>previousMonthData\<close> to the number of labels.\<close>

definition matchLength :: "nat \<Rightarrow> real list \<Rightarrow> real list" where
  "matchLength daysInCurrentMonth previousMonthData =
     (if length previousMonthData > daysInCurrentMonth
      then take daysInCurrentMonth previousMonthData
      else if length previousMonthData < daysInCurrentMonth
      then let lastVal = (if previousMonthData = [] then 0 else last previousMonthData)
           in previousMonthData
              @ replicate (daysInCurrentMonth - length previousMonthData) lastVal
      else previousMonthData)"

record TrendData =
  labels :: "string list"
  currentMonthData :: "real option list"
  previousMonthData :: "real list"

definition prepareTrendData :: "JsDate \<Rightarrow> Expense list \<Rightarrow> TrendData" where
  "prepareTrendData now exps =
     (let currentYear = getFullYear now;
          currentMonth = getMonth now;
          today = getDate now;
          daysInCurrentMonth = lastDayBefore currentYear (currentMonth + 1);
          daysInPreviousMonth = lastDayBefore currentYear currentMonth;
          (tempCurrent, tempPrevious) =
             foldl (aggregateStep now daysInCurrentMonth daysInPreviousMonth)
               (replicate daysInCurrentMonth 0, replicate daysInPreviousMonth 0) exps;
          filled = fillCurrent today (replicate daysInCurrentMonth (Some 0)) 0 0 tempCurrent;
          nulled = foldl (\<lambda>cmd i. arraySet cmd i None) filled [today..<daysInCurrentMonth];
          previous = fillPrevious (replicate daysInCurrentMonth 0) 0 0 tempPrevious
      in \<lparr>labels = map (\<lambda>i. digitsOf (i + 1)) [0..<daysInCurrentMonth],
          currentMonthData = nulled,
          previousMonthData = matchLength daysInCurrentMonth previous\<rparr>)"

text \<open>An expense of 10.00 on 10 February 2025.\<close>

definition febExpense :: Expense where
  "febExpense = \<lparr>e_description = ''Rent'', e_amount = 1000, e_date = day 2025 1 10,
       e_memberId = ''mem-1'', e_categoryId = ''cat-1'',
       splits = [\<lparr>memberId = ''mem-1'', amount = 1000\<rparr>],
       e_id = ''exp-0''\<rparr>"

section \<open>ExpenseTracker: CSV export\<close>

text \<open>
  \<open>handleExportCSV\<close> builds the text of the file from the filtered expenses; \<open>None\<close>
  is the early return when there is nothing to export. \<open>row.join(',')\<close> and
  \<open>csvRows.join('\n')\<close> are \<open>join\<close>.
\<close>

definition headers :: "string list" where
  "headers = [''Expense ID'', ''Date'', ''Description'', ''Total Amount (INR)'', ''Category'',
              ''Payer'', ''Split Member'', ''Member's Share (INR)'']"

definition join :: "string \<Rightarrow> string list \<Rightarrow> string" where
  "join sep xs = (case xs of [] \<Rightarrow> [] | x # rest \<Rightarrow> foldl (\<lambda>acc y. acc @ sep @ y) x rest)"

definition doubleQuotes :: "string \<Rightarrow> string" where
  "doubleQuotes cell = concat (map (\<lambda>ch. if ch = CHR 0x22 then [CHR 0x22, CHR 0x22] else [ch]) cell)"

definition formatCSVCell :: "string \<Rightarrow> string" where
  "formatCSVCell cellData =
     (let cell = cellData
      in if CHR '','' \<in> set cell \<or> CHR 0x22 \<in> set cell \<or> CHR 0x0A \<in> set cell
         then [CHR 0x22] @ doubleQuotes cell @ [CHR 0x22]
         else cell)"

text \<open>
  \<open>(cents / 100).toFixed(2)\<close>: the quotient is a double; \<open>toFixed\<close> takes the sign,
  and below \<open>10^21\<close> prints the whole number \<open>n\<close> of hundredths nearest to the double
  (the larger one of two), with at least one digit before the point. From \<open>10^21\<close> on it
  prints what \<open>Number::toString\<close> gives, the first argument of the model.
\<close>

definition showHundredths :: "nat \<Rightarrow> string" where
  "showHundredths n =
     digitsOf (n div 100) @ ''.''
     @ [''0123456789'' ! (n mod 100 div 10), ''0123456789'' ! (n mod 10)]"

definition toFixed2 :: "(rat \<Rightarrow> string) \<Rightarrow> int \<Rightarrow> string" where
  "toFixed2 numberToString cents =
     (let x = fl (of_int cents / 100);
          s = (if x < 0 then ''-'' else []);
          ax = \<bar>x\<bar>
      in if 10 ^ 21 \<le> ax then s @ numberToString ax
         else s @ showHundredths (nat \<lfloor>ax * 100 + 1 / 2\<rfloor>))"

definition getCategory :: "Household \<Rightarrow> string \<Rightarrow> Category option" where
  "getCategory household i = find (\<lambda>c. c_id c = i) (categories household)"

definition getMember :: "Household \<Rightarrow> string \<Rightarrow> Member option" where
  "getMember household i = find (\<lambda>m. m_id m = i) (members household)"

definition categoryNameOr :: "Category option \<Rightarrow> string" where
  "categoryNameOr c = (case c of None \<Rightarrow> ''Uncategorized''
                       | Some c \<Rightarrow> if c_name c = [] then ''Uncategorized'' else c_name c)"

definition memberNameOr :: "Member option \<Rightarrow> string" where
  "memberNameOr m = (case m of None \<Rightarrow> ''Unknown''
                     | Some m \<Rightarrow> if m_name m = [] then ''Unknown'' else m_name m)"

definition csvRow :: "(rat \<Rightarrow> string) \<Rightarrow> Household \<Rightarrow> Expense \<Rightarrow> Split \<Rightarrow> string list" where
  "csvRow numberToString household expense split =
     [formatCSVCell (e_id expense),
      isoDay (e_date expense),
      formatCSVCell (e_description expense),
      toFixed2 numberToString (e_amount expense),
      formatCSVCell (categoryNameOr (getCategory household (e_categoryId expense))),
      formatCSVCell (memberNameOr (getMember household (e_memberId expense))),
      formatCSVCell (memberNameOr (getMember household (memberId split))),
      toFixed2 numberToString (amount split)]"

definition expenseRows :: "(rat \<Rightarrow> string) \<Rightarrow> Household \<Rightarrow> Expense \<Rightarrow> string list list" where
  "expenseRows numberToString household expense =
     map (csvRow numberToString household expense)
       (filter (\<lambda>split. amount split > 0) (splits expense))"

definition csvRows :: "(rat \<Rightarrow> string) \<Rightarrow> Household \<Rightarrow> Expense list \<Rightarrow> string list" where
  "csvRows numberToString household filteredExpenses =
     join '','' headers
     # map (join '','') (concat (map (expenseRows numberToString household) filteredExpenses))"

definition handleExportCSV ::
  "(rat \<Rightarrow> string) \<Rightarrow> Household \<Rightarrow> Expense list \<Rightarrow> string option" where
  "handleExportCSV numberToString household filteredExpenses =
     (if length filteredExpenses = 0 then None
      else Some (join [CHR 0x0A] (csvRows numberToString household filteredExpenses)))"

text \<open>
  For the statements: reading a decimal text with two places back as a number of cents.
\<close>

definition parseNat :: "string \<Rightarrow> nat" where
  "parseNat s = foldl (\<lambda>n ch. 10 * n + (of_char ch - 48)) 0 s"

definition absCents :: "string \<Rightarrow> nat" where
  "absCents body =
     (let whole = takeWhile (\<lambda>ch. ch \<noteq> CHR ''.'') body;
          frac = drop 1 (dropWhile (\<lambda>ch. ch \<noteq> CHR ''.'') body)
      in 100 * parseNat whole + parseNat frac)"

definition centsOf :: "string \<Rightarrow> int" where
  "centsOf s =
     (case s of
        [] \<Rightarrow> 0
      | ch # rest \<Rightarrow> if ch = CHR ''-'' then - int (absCents rest) else int (absCents s))"

text \<open>
  Two expenses of 14 March 2025: one whose description needs quoting, with a zero
  split; and one whose splits add up to its amount with a negative share.
\<close>

definition pizzaExpense :: Expense where
  "pizzaExpense =
     \<lparr>e_description = ''Pizza, '' @ [CHR 0x22] @ ''XL'' @ [CHR 0x22], e_amount = 1001,
      e_date = \<lparr>getFullYear = 2025, getMonth = 2, getDate = 14, getTime = 1741910400000,
                isoDay = ''2025-03-14''\<rparr>,
      e_memberId = ''mem-1'', e_categoryId = ''cat-2'',
      splits = [\<lparr>memberId = ''mem-1'', amount = 501\<rparr>, \<lparr>memberId = ''mem-2'', amount = 500\<rparr>,
                \<lparr>memberId = ''mem-3'', amount = 0\<rparr>],
      e_id = ''exp-9''\<rparr>"

definition refundExpense :: Expense where
  "refundExpense =
     \<lparr>e_description = ''Dinner'', e_amount = 1000,
      e_date = \<lparr>getFullYear = 2025, getMonth = 2, getDate = 14, getTime = 1741910400000,
                isoDay = ''2025-03-14''\<rparr>,
      e_memberId = ''mem-1'', e_categoryId = ''cat-1'',
      splits = [\<lparr>memberId = ''mem-1'', amount = 1500\<rparr>, \<lparr>memberId = ''mem-2'', amount = - 500\<rparr>],
      e_id = ''exp-10''\<rparr>"

text \<open>
  An expense of 7036874417766402 cents shared as 7036874417766401 and 1, and a stand-in
  for \<open>Number::toString\<close> in the examples, none of which reaches \<open>10^21\<close>.
\<close>

definition hugeExpense :: Expense where
  "hugeExpense =
     \<lparr>e_description = ''Estate'', e_amount = 7036874417766402,
      e_date = \<lparr>getFullYear = 2025, getMonth = 2, getDate = 14, getTime = 1741910400000,
                isoDay = ''2025-03-14''\<rparr>,
      e_memberId = ''mem-1'', e_categoryId = ''cat-1'',
      splits = [\<lparr>memberId = ''mem-1'', amount = 7036874417766401\<rparr>,
                \<lparr>memberId = ''mem-2'', amount = 1\<rparr>],
      e_id = ''exp-11''\<rparr>"

definition exponentForm :: "rat \<Rightarrow> string" where
  "exponentForm x = ''1e+21''"

section \<open>JavaScript numbers: properties\<close>

lemma expo_bounds:
  assumes "0 < x"
  shows "2 powi expo x \<le> x \<and> x < 2 powi (expo x + 1)"
proof (cases "1 \<le> x")
  case True
  define f where "f = \<lfloor>x\<rfloor>"
  have f1: "1 \<le> f" using True by (simp add: f_def le_floor_iff)
  then have b1: "1 \<le> bitlen f"
    using bitlen_eq_zero_iff [of f] bitlen_nonneg [of f] by linarith
  from f1 bitlen_bounds [of f]
  have lo: "2 ^ nat (bitlen f - 1) \<le> f" and hi: "f < 2 ^ nat (bitlen f)" by simp_all
  have e: "expo x = bitlen f - 1" using True by (simp add: expo_def f_def)
  have p1: "(2::rat) powi (bitlen f - 1) = of_int (2 ^ nat (bitlen f - 1))"
    using b1 by (simp add: power_int_def)
  have p2: "(2::rat) powi (bitlen f - 1 + 1) = of_int (2 ^ nat (bitlen f))"
    using b1 by (simp add: power_int_def)
  have "of_int f \<le> x" by (simp add: f_def)
  moreover have "x < of_int (f + 1)" unfolding f_def by linarith
  moreover have "(of_int (2 ^ nat (bitlen f - 1)) :: rat) \<le> of_int f"
    using lo by (simp only: of_int_le_iff)
  moreover have "(of_int (f + 1) :: rat) \<le> of_int (2 ^ nat (bitlen f))"
    using hi by (metis of_int_le_iff zless_imp_add1_zle)
  ultimately show ?thesis
    unfolding e p1 p2 by linarith
next
  case False
  define m where "m = \<lceil>1 / x\<rceil> - 1"
  have x1: "x < 1" using False by simp
  then have "1 < 1 / x" using assms by simp
  then have m1: "1 \<le> m" unfolding m_def by (simp add: less_ceiling_iff)
  then have b1: "1 \<le> bitlen m"
    using bitlen_eq_zero_iff [of m] bitlen_nonneg [of m] by linarith
  from m1 bitlen_bounds [of m]
  have lo: "2 ^ nat (bitlen m - 1) \<le> m" and hi: "m < 2 ^ nat (bitlen m)" by simp_all
  have e: "expo x = - bitlen m" using False by (simp add: expo_def m_def)
  have ml: "of_int m < 1 / x" unfolding m_def by linarith
  have mu: "1 / x \<le> of_int (m + 1)" unfolding m_def by simp
  have "(of_int (2 ^ nat (bitlen m - 1)) :: rat) \<le> of_int m"
    using lo by (simp only: of_int_le_iff)
  then have "(2::rat) ^ nat (bitlen m - 1) \<le> of_int m" by simp
  with ml have A: "(2::rat) ^ nat (bitlen m - 1) < 1 / x" by linarith
  have "(of_int (m + 1) :: rat) \<le> of_int (2 ^ nat (bitlen m))"
    using hi by (metis of_int_le_iff zless_imp_add1_zle)
  then have "(of_int (m + 1) :: rat) \<le> 2 ^ nat (bitlen m)" by simp
  with mu have B: "1 / x \<le> (2::rat) ^ nat (bitlen m)" by linarith
  have p1: "(2::rat) powi (- bitlen m) = 1 / 2 ^ nat (bitlen m)"
    using b1 by (subst power_int_minus_divide) (simp add: power_int_def)
  have "(2::rat) powi (- (bitlen m - 1)) = 1 / 2 ^ nat (bitlen m - 1)"
    using b1 by (subst power_int_minus_divide) (simp add: power_int_def)
  then have p2: "(2::rat) powi (- bitlen m + 1) = 1 / 2 ^ nat (bitlen m - 1)"
    by (simp add: algebra_simps)
  from B assms have "1 / 2 ^ nat (bitlen m) \<le> x"
    by (simp add: field_simps)
  moreover from A assms have "x < 1 / 2 ^ nat (bitlen m - 1)"
    by (simp add: field_simps)
  ultimately show ?thesis unfolding e p1 p2 by simp
qed


lemma roundHalfEven_bounds:
  "\<lfloor>q\<rfloor> \<le> roundHalfEven q \<and> \<bar>of_int (roundHalfEven q) - q\<bar> \<le> 1 / 2"
proof -
  have "of_int \<lfloor>q\<rfloor> \<le> q" "q < of_int \<lfloor>q\<rfloor> + 1" by linarith+
  then show ?thesis
    by (auto simp: roundHalfEven_def Let_def)
qed

lemma roundHalfEven_of_int: "roundHalfEven (of_int k) = k"
  by (simp add: roundHalfEven_def)

lemma fl_pos:
  "0 < x \<Longrightarrow> fl x = of_int (roundHalfEven (x / 2 powi (expo x - 52))) * 2 powi (expo x - 52)"
  by (simp add: fl_def Let_def)

lemma fl_minus: "fl (- x) = - fl x"
  by (simp add: fl_def Let_def)

lemma ulp_pos: "0 < (2::rat) powi n"
  by (simp add: power_int_def)

lemma fl_error:
  assumes "0 < x"
  shows "\<bar>fl x - x\<bar> \<le> x / 2 ^ 53"
proof -
  define u :: rat where "u = 2 powi (expo x - 52)"
  have u0: "0 < u" unfolding u_def by (rule ulp_pos)
  have "u = 2 powi expo x / 2 ^ 52"
    unfolding u_def by (simp add: power_int_diff)
  moreover have "2 powi expo x \<le> x" using expo_bounds [OF assms] by simp
  ultimately have ux: "u \<le> x / 2 ^ 52" by (simp add: divide_right_mono)
  define n where "n = roundHalfEven (x / u)"
  have "\<bar>of_int n - x / u\<bar> \<le> 1 / 2"
    unfolding n_def using roundHalfEven_bounds by blast
  then have "\<bar>of_int n - x / u\<bar> * u \<le> 1 / 2 * u"
    using u0 by (simp only: mult_right_mono less_imp_le)
  moreover have "\<bar>of_int n - x / u\<bar> * u = \<bar>of_int n * u - x\<bar>"
  proof -
    have "\<bar>of_int n - x / u\<bar> * u = \<bar>(of_int n - x / u) * u\<bar>"
      using u0 by (simp add: abs_mult)
    also have "(of_int n - x / u) * u = of_int n * u - x"
      using u0 by (simp add: left_diff_distrib)
    finally show ?thesis .
  qed
  ultimately have "\<bar>of_int n * u - x\<bar> \<le> u / 2" by simp
  moreover have "fl x = of_int n * u"
    using assms by (simp add: fl_pos n_def u_def)
  ultimately show ?thesis using ux by simp
qed


lemma expo_le_52:
  assumes "0 < x" "x < 2 ^ 53"
  shows "expo x \<le> 52"
proof (rule ccontr)
  assume "\<not> expo x \<le> 52"
  then have "53 \<le> expo x" by simp
  then have "(2::rat) powi 53 \<le> 2 powi expo x"
    by (intro power_int_increasing) simp_all
  with expo_bounds [OF assms(1)] assms(2) show False by simp
qed

lemma fl_ge_int:
  assumes "0 < x" "x < 2 ^ 53" "of_int k \<le> x"
  shows "of_int k \<le> fl x"
proof -
  define N :: int where "N = 2 ^ nat (52 - expo x)"
  have e: "expo x \<le> 52" using assms(1,2) by (rule expo_le_52)
  have N0: "0 < N" by (simp add: N_def)
  have "(2::rat) powi (- (52 - expo x)) = 1 / 2 powi (52 - expo x)"
    by (rule power_int_minus_divide)
  also have "(2::rat) powi (52 - expo x) = of_int N"
    using e by (simp add: N_def power_int_def)
  finally have u: "(2::rat) powi (expo x - 52) = 1 / of_int N" by simp
  have "of_int (k * N) \<le> x * of_int N"
    using assms(3) N0 by (simp add: mult_right_mono)
  then have "k * N \<le> \<lfloor>x * of_int N\<rfloor>" by (simp add: le_floor_iff)
  also have "\<dots> \<le> roundHalfEven (x * of_int N)"
    using roundHalfEven_bounds by blast
  finally have "(of_int (k * N) :: rat) \<le> of_int (roundHalfEven (x * of_int N))"
    by (simp only: of_int_le_iff)
  then have "of_int k * of_int N \<le> (of_int (roundHalfEven (x * of_int N)) :: rat)" by simp
  then have "of_int k \<le> (of_int (roundHalfEven (x * of_int N)) :: rat) / of_int N"
    using N0 by (simp add: pos_le_divide_eq)
  then show ?thesis
    using assms(1) by (simp add: fl_pos u)
qed

lemma fl_of_int_exact:
  assumes "\<bar>k\<bar> < 2 ^ 53"
  shows "fl (of_int k) = of_int k"
proof -
  have pos: "fl (of_int j) = of_int j" if "0 < j" "j < 2 ^ 53" for j :: int
  proof -
    have x0: "(0::rat) < of_int j" using that by simp
    have "(of_int j :: rat) < of_int (2 ^ 53)" using that(2) by (simp only: of_int_less_iff)
    then have x1: "(of_int j :: rat) < 2 ^ 53" by simp
    define N :: int where "N = 2 ^ nat (52 - expo (of_int j))"
    have e: "expo (of_int j) \<le> 52" using x0 x1 by (rule expo_le_52)
    have N0: "0 < N" by (simp add: N_def)
    have "(2::rat) powi (- (52 - expo (of_int j))) = 1 / 2 powi (52 - expo (of_int j))"
      by (rule power_int_minus_divide)
    also have "(2::rat) powi (52 - expo (of_int j)) = of_int N"
      using e by (simp add: N_def power_int_def)
    finally have u: "(2::rat) powi (expo (of_int j) - 52) = 1 / of_int N" by simp
    have "roundHalfEven (of_int j * of_int N) = j * N"
      using roundHalfEven_of_int [of "j * N"] by simp
    then show ?thesis
      using x0 N0 by (simp add: fl_pos u)
  qed
  consider "k = 0" | "0 < k" | "k < 0" by linarith
  then show ?thesis
  proof cases
    case 1
    then show ?thesis by (simp add: fl_def)
  next
    case 2
    with assms pos [of k] show ?thesis by simp
  next
    case 3
    with assms pos [of "- k"] fl_minus [of "of_int (- k)"] show ?thesis by simp
  qed
qed

lemma floor_fl_div:
  assumes "0 < a" "a < 2 ^ 53" "0 < b"
  shows "\<lfloor>fl (of_int a / of_int b)\<rfloor> = a div b"
proof -
  define x :: rat where "x = of_int a / of_int b"
  have x0: "0 < x" using assms by (simp add: x_def)
  have ar: "(of_int a :: rat) < 2 ^ 53"
    using assms(2) by (metis of_int_less_iff of_int_numeral of_int_power)
  have "x \<le> of_int a" using assms by (simp add: x_def divide_le_eq mult_le_cancel_left1)
  with ar have x1: "x < 2 ^ 53" by simp
  have lo: "of_int (a div b) \<le> x"
  proof -
    have "a div b * b = a - a mod b" by (simp add: minus_mod_eq_div_mult)
    moreover have "0 \<le> a mod b" using assms(3) by simp
    ultimately have "a div b * b \<le> a" by linarith
    then have "(of_int (a div b * b) :: rat) \<le> of_int a" by (simp only: of_int_le_iff)
    then show ?thesis using assms(3) by (simp add: x_def le_divide_eq)
  qed
  have ge: "of_int (a div b) \<le> fl x" using x0 x1 lo by (rule fl_ge_int)
  have err: "\<bar>fl x - x\<bar> \<le> x / 2 ^ 53" using x0 by (rule fl_error)
  have "x / 2 ^ 53 < 1 / of_int b"
    using assms ar by (simp add: x_def field_simps)
  moreover have "x + 1 / of_int b \<le> of_int (a div b) + 1"
  proof -
    have "a div b * b = a - a mod b" by (simp add: minus_mod_eq_div_mult)
    moreover have "a mod b < b" using assms(3) by simp
    ultimately have "a + 1 \<le> a div b * b + b" by linarith
    then have "a + 1 \<le> (a div b + 1) * b" by (simp add: algebra_simps)
    then have "(of_int (a + 1) :: rat) \<le> of_int ((a div b + 1) * b)"
      by (simp only: of_int_le_iff)
    then show ?thesis
      using assms(3) by (simp add: x_def field_simps)
  qed
  ultimately have "fl x < of_int (a div b) + 1" using err by linarith
  with ge show ?thesis unfolding x_def by (simp add: floor_unique)
qed


lemma expo_ge_52:
  assumes "2 ^ 52 \<le> x"
  shows "52 \<le> expo x"
proof (rule ccontr)
  assume "\<not> 52 \<le> expo x"
  then have "expo x + 1 \<le> 52" by simp
  then have "(2::rat) powi (expo x + 1) \<le> 2 powi 52"
    by (intro power_int_increasing) simp_all
  moreover have "(0::rat) < 2 ^ 52" by simp
  then have "0 < x" using assms by linarith
  ultimately show False using expo_bounds [of x] assms by simp
qed

lemma fl_of_int_whole: "of_int \<lfloor>fl (of_int k)\<rfloor> = fl (of_int k)"
proof (cases "\<bar>k\<bar> < 2 ^ 53")
  case True
  then show ?thesis by (simp add: fl_of_int_exact)
next
  case False
  then have big: "2 ^ 53 \<le> \<bar>k\<bar>" by simp
  then have "(of_int (2 ^ 53) :: rat) \<le> of_int \<bar>k\<bar>" by (simp only: of_int_le_iff)
  then have "(2::rat) ^ 52 \<le> \<bar>of_int k\<bar>" by simp
  then have e: "52 \<le> expo \<bar>of_int k\<bar>" by (rule expo_ge_52)
  have k0: "k \<noteq> 0" using big by auto
  define N :: int where "N = 2 ^ nat (expo \<bar>of_int k\<bar> - 52)"
  have u: "(2::rat) powi (expo \<bar>of_int k\<bar> - 52) = of_int N"
    using e by (simp add: N_def power_int_def)
  have sg: "sgn (of_int k :: rat) = of_int (sgn k)" by (simp add: sgn_if)
  have "fl (of_int k) = of_int (sgn k * (roundHalfEven (\<bar>of_int k\<bar> / of_int N) * N))"
    using k0 by (simp add: fl_def Let_def u sg)
  then show ?thesis by (simp only: floor_of_int)
qed

lemma floor_half: "\<lfloor>1 / 2 :: rat\<rfloor> = 0"
  by (rule floor_unique) simp_all

lemma fl_error_ulp:
  assumes "0 < x"
  shows "\<bar>fl x - x\<bar> \<le> 2 powi (expo x - 53)"
proof -
  define u :: rat where "u = 2 powi (expo x - 52)"
  have u0: "0 < u" unfolding u_def by (rule ulp_pos)
  have half: "u / 2 = 2 powi (expo x - 53)"
  proof -
    have "(2::rat) powi (expo x - 52) = 2 powi (expo x - 53 + 1)" by simp
    also have "\<dots> = 2 powi (expo x - 53) * 2"
      by (subst power_int_add) simp_all
    finally show ?thesis by (simp add: u_def)
  qed
  define n where "n = roundHalfEven (x / u)"
  have "\<bar>of_int n - x / u\<bar> \<le> 1 / 2"
    unfolding n_def using roundHalfEven_bounds by blast
  then have "\<bar>of_int n - x / u\<bar> * u \<le> 1 / 2 * u"
    using u0 by (simp only: mult_right_mono less_imp_le)
  moreover have "\<bar>of_int n - x / u\<bar> * u = \<bar>of_int n * u - x\<bar>"
  proof -
    have "\<bar>of_int n - x / u\<bar> * u = \<bar>(of_int n - x / u) * u\<bar>"
      using u0 by (simp add: abs_mult)
    also have "(of_int n - x / u) * u = of_int n * u - x"
      using u0 by (simp add: left_diff_distrib)
    finally show ?thesis .
  qed
  ultimately have "\<bar>of_int n * u - x\<bar> \<le> u / 2" by simp
  moreover have "fl x = of_int n * u"
    using assms by (simp add: fl_pos n_def u_def)
  ultimately show ?thesis using half by simp
qed

lemma expo_le_45:
  assumes "0 < x" "x < 2 ^ 46"
  shows "expo x \<le> 45"
proof (rule ccontr)
  assume "\<not> expo x \<le> 45"
  then have "46 \<le> expo x" by simp
  then have "(2::rat) powi 46 \<le> 2 powi expo x"
    by (intro power_int_increasing) simp_all
  with expo_bounds [OF assms(1)] assms(2) show False by simp
qed

lemma fl_div100_error:
  assumes "0 < c" "c < 100 * 2 ^ 46"
  shows "\<bar>fl (of_int c / 100) * 100 - of_int c\<bar> \<le> 100 / 256"
proof -
  define x :: rat where "x = of_int c / 100"
  have x0: "0 < x" using assms(1) by (simp add: x_def)
  have "(of_int c :: rat) < of_int (100 * 2 ^ 46)" using assms(2) by (simp only: of_int_less_iff)
  then have "x < 2 ^ 46" by (simp add: x_def)
  with x0 have "expo x \<le> 45" by (rule expo_le_45)
  then have "(2::rat) powi (expo x - 53) \<le> 2 powi (- 8)"
    by (intro power_int_increasing) simp_all
  also have "(2::rat) powi (- 8) = 1 / 256"
    by (simp add: power_int_minus_divide)
  finally have "\<bar>fl x - x\<bar> \<le> 1 / 256"
    using fl_error_ulp [OF x0] by linarith
  then have "\<bar>fl x - x\<bar> * 100 \<le> 100 / 256" by simp
  moreover have "\<bar>fl x - x\<bar> * 100 = \<bar>fl x * 100 - of_int c\<bar>"
  proof -
    have "\<bar>fl x - x\<bar> * 100 = \<bar>(fl x - x) * 100\<bar>" by (subst abs_mult) simp
    also have "(fl x - x) * 100 = fl x * 100 - of_int c"
      by (simp add: x_def left_diff_distrib)
    finally show ?thesis .
  qed
  ultimately show ?thesis unfolding x_def by simp
qed

lemma toFixed_round:
  assumes "0 \<le> c" "c < 100 * 2 ^ 46"
  shows "\<lfloor>fl (of_int c / 100) * 100 + 1 / 2\<rfloor> = c"
proof (cases "c = 0")
  case True
  then show ?thesis by (simp add: fl_def floor_half)
next
  case False
  with assms have c0: "0 < c" by simp
  have "\<bar>fl (of_int c / 100) * 100 - of_int c\<bar> \<le> 100 / 256"
    using c0 assms(2) by (rule fl_div100_error)
  then have "of_int c \<le> fl (of_int c / 100) * 100 + 1 / 2"
    "fl (of_int c / 100) * 100 + 1 / 2 < of_int c + 1"
    by linarith+
  then show ?thesis by (simp add: floor_unique)
qed

lemma fl_div100_bound:
  assumes "0 \<le> c" "c < 100 * 2 ^ 46"
  shows "0 \<le> fl (of_int c / 100) \<and> fl (of_int c / 100) < 10 ^ 21"
proof (cases "c = 0")
  case True
  then show ?thesis by (simp add: fl_def)
next
  case False
  with assms have c0: "0 < c" by simp
  have e: "\<bar>fl (of_int c / 100) * 100 - of_int c\<bar> \<le> 100 / 256"
    using c0 assms(2) by (rule fl_div100_error)
  have "(of_int c :: rat) < of_int (100 * 2 ^ 46)" using assms(2) by (simp only: of_int_less_iff)
  then have hi: "(of_int c :: rat) < 7036874417766400" by simp
  have lo: "(1::rat) \<le> of_int c" using c0 by simp
  define y where "y = fl (of_int c / 100) * 100"
  have "\<bar>y - of_int c\<bar> \<le> 100 / 256" using e by (simp only: y_def)
  then have "of_int c - 100 / 256 \<le> y" "y \<le> of_int c + 100 / 256" by linarith+
  with lo hi have "0 \<le> y" "y < 10 ^ 21 * 100" by simp_all
  then show ?thesis unfolding y_def by simp
qed

section \<open>Equal split: properties\<close>

lemma sum_list_indicator_upt:
  "(\<Sum>i\<leftarrow>[0..<n]. (if i < r then 1 else 0 :: int)) = int (min r n)"
  by (induction n) auto

lemma sum_list_base_plus_indicator:
  assumes "0 < n" "0 < t"
  shows "(\<Sum>i\<leftarrow>[0..<n]. t div int n + (if int i < t mod int n then 1 else 0)) = t"
proof -
  let ?r = "nat (t mod int n)"
  have r: "?r \<le> n" using assms by (simp add: nat_le_iff less_imp_le)
  have ind: "\<And>i. (int i < t mod int n) = (i < ?r)"
    using assms by (simp add: zless_nat_eq_int_zless)
  have "(\<Sum>i\<leftarrow>[0..<n]. t div int n + (if int i < t mod int n then 1 else 0))
        = (\<Sum>i\<leftarrow>[0..<n]. t div int n) + (\<Sum>i\<leftarrow>[0..<n]. (if i < ?r then 1 else 0 :: int))"
    by (simp add: sum_list_addf ind)
  also have "\<dots> = int n * (t div int n) + int ?r"
    using r by (simp add: sum_list_triv sum_list_indicator_upt min_def)
  also have "\<dots> = t" using assms by simp
  finally show ?thesis .
qed

lemma share_exact:
  assumes "0 < t" "t < 2 ^ 53" "0 < n" "0 \<le> i"
  shows "\<lfloor>fl (of_int (t div n + (if i < t mod n then 1 else 0)))\<rfloor>
           = t div n + (if i < t mod n then 1 else 0)"
proof -
  define k where "k = t div n + (if i < t mod n then 1 else 0)"
  have d0: "0 \<le> t div n" using assms by (simp add: pos_imp_zdiv_nonneg_iff)
  have eq: "t div n * n = t - t mod n" by (simp add: minus_mod_eq_div_mult)
  have m0: "0 \<le> t mod n" using assms(3) by simp
  have "t div n \<le> t div n * n" using d0 assms(3) by (simp add: mult_le_cancel_left1)
  then have le: "t div n + t mod n \<le> t" using eq by linarith
  have "0 \<le> k" using d0 by (simp add: k_def)
  moreover have "k \<le> t"
  proof (cases "i < t mod n")
    case True
    then have "1 \<le> t mod n" using assms(4) by linarith
    with le True show ?thesis by (simp add: k_def)
  next
    case False
    with le m0 show ?thesis by (simp add: k_def)
  qed
  ultimately have "\<bar>k\<bar> < 2 ^ 53" using assms(2) by simp
  then have "fl (of_int k) = of_int k" by (rule fl_of_int_exact)
  then show ?thesis unfolding k_def by (simp only: floor_of_int)
qed

lemma handleSplitEqually_map:
  assumes "0 < t" "t < 2 ^ 53" "members h \<noteq> []"
  shows "handleSplitEqually t h old =
     map (\<lambda>i. \<lparr>memberId = m_id (members h ! i),
               amount = t div int (length (members h))
                 + (if int i < t mod int (length (members h)) then 1 else 0)\<rparr>)
         [0..<length (members h)]"
proof -
  have n0: "0 < int (length (members h))" using assms(3) by simp
  have base: "\<lfloor>fl (of_int t / of_int (int (length (members h))))\<rfloor>
                = t div int (length (members h))"
    using assms(1,2) n0 by (rule floor_fl_div)
  have share: "\<lfloor>fl (of_int (t div int (length (members h))
                  + (if int i < t mod int (length (members h)) then 1 else 0)))\<rfloor>
                = t div int (length (members h))
                  + (if int i < t mod int (length (members h)) then 1 else 0)" for i :: nat
    using assms(1,2) n0 by (rule share_exact) simp
  have "handleSplitEqually t h old =
          map (\<lambda>(index, member).
                  \<lparr>memberId = m_id member,
                   amount = t div int (length (members h))
                     + (if int index < t mod int (length (members h)) then 1 else 0)\<rparr>)
              (enumerate 0 (members h))"
    unfolding handleSplitEqually_def Let_def base share using assms(1,3) by simp
  also have "\<dots> = map (\<lambda>i. \<lparr>memberId = m_id (members h ! i),
               amount = t div int (length (members h))
                 + (if int i < t mod int (length (members h)) then 1 else 0)\<rparr>)
         [0..<length (members h)]"
    by (rule nth_equalityI) (simp_all add: enumerate_eq_zip)
  finally show ?thesis .
qed

text \<open>
  Claim C1, as the code has it. For a positive total below \<open>2^53\<close> (the whole numbers
  a double holds exactly) and a non-empty member list, the equal split has one split per
  member, in member order; the split at position \<open>i\<close> is the floor of total / n, plus
  one cent when \<open>i\<close> is below total mod n; the amounts add up to the total. Splitting
  1000 cents over three members gives 334, 333, 333.
\<close>

theorem handleSplitEqually_correct:
  "(0 < tc \<and> tc < 2 ^ 53 \<and> members h \<noteq> [] \<longrightarrow>
      length (handleSplitEqually tc h old) = length (members h)
    \<and> map memberId (handleSplitEqually tc h old) = map m_id (members h)
    \<and> (\<forall>i < length (members h).
          amount (handleSplitEqually tc h old ! i) =
            tc div int (length (members h))
            + (if int i < tc mod int (length (members h)) then 1 else 0))
    \<and> sum_list (map amount (handleSplitEqually tc h old)) = tc)
   \<and> map amount (handleSplitEqually 1000 (h\<lparr>members := [a, b, c]\<rparr>) old) = [334, 333, 333]"
proof (intro conjI impI)
  assume h: "0 < tc \<and> tc < 2 ^ 53 \<and> members h \<noteq> []"
  then have eq: "handleSplitEqually tc h old =
     map (\<lambda>i. \<lparr>memberId = m_id (members h ! i),
               amount = tc div int (length (members h))
                 + (if int i < tc mod int (length (members h)) then 1 else 0)\<rparr>)
         [0..<length (members h)]"
    by (simp add: handleSplitEqually_map)
  show "length (handleSplitEqually tc h old) = length (members h)"
    by (simp add: eq)
  show "map memberId (handleSplitEqually tc h old) = map m_id (members h)"
    by (rule nth_equalityI) (simp_all add: eq)
  show "\<forall>i < length (members h).
          amount (handleSplitEqually tc h old ! i) =
            tc div int (length (members h))
            + (if int i < tc mod int (length (members h)) then 1 else 0)"
    by (simp add: eq)
  from h have "0 < length (members h)" by simp
  then show "sum_list (map amount (handleSplitEqually tc h old)) = tc"
    using h sum_list_base_plus_indicator [of "length (members h)" tc]
    by (simp add: eq o_def)
next
  have "handleSplitEqually 1000 (h\<lparr>members := [a, b, c]\<rparr>) old =
     map (\<lambda>i. \<lparr>memberId = m_id (members (h\<lparr>members := [a, b, c]\<rparr>) ! i),
               amount = 1000 div int (length (members (h\<lparr>members := [a, b, c]\<rparr>)))
                 + (if int i < 1000 mod int (length (members (h\<lparr>members := [a, b, c]\<rparr>)))
                    then 1 else 0)\<rparr>)
         [0..<length (members (h\<lparr>members := [a, b, c]\<rparr>))]"
    by (rule handleSplitEqually_map) simp_all
  then show "map amount (handleSplitEqually 1000 (h\<lparr>members := [a, b, c]\<rparr>) old) = [334, 333, 333]"
    by (simp add: upt_rec)
qed

theorem handleSplitEqually_correct_witness:
  "(0::int) < 1001 \<and> (1001::int) < 2 ^ 53 \<and> members abcHousehold \<noteq> []
   \<and> handleSplitEqually 1001 abcHousehold []
       = [\<lparr>memberId = ''mem-1'', amount = 334\<rparr>, \<lparr>memberId = ''mem-2'', amount = 334\<rparr>,
          \<lparr>memberId = ''mem-3'', amount = 333\<rparr>]
   \<and> sum_list (map amount (handleSplitEqually 1001 abcHousehold [])) = 1001"
proof -
  have m: "members abcHousehold \<noteq> []" by (simp add: abcHousehold_def abc_def)
  have v: "handleSplitEqually 1001 abcHousehold []
       = [\<lparr>memberId = ''mem-1'', amount = 334\<rparr>, \<lparr>memberId = ''mem-2'', amount = 334\<rparr>,
          \<lparr>memberId = ''mem-3'', amount = 333\<rparr>]"
    by code_simp
  note T = handleSplitEqually_correct [of 1001 abcHousehold "[]"]
  from T have "0 < (1001::int) \<and> (1001::int) < 2 ^ 53 \<and> members abcHousehold \<noteq> [] \<longrightarrow>
      length (handleSplitEqually 1001 abcHousehold []) = length (members abcHousehold)
    \<and> map memberId (handleSplitEqually 1001 abcHousehold []) = map m_id (members abcHousehold)
    \<and> (\<forall>i < length (members abcHousehold).
          amount (handleSplitEqually 1001 abcHousehold [] ! i) =
            1001 div int (length (members abcHousehold))
            + (if int i < 1001 mod int (length (members abcHousehold)) then 1 else 0))
    \<and> sum_list (map amount (handleSplitEqually 1001 abcHousehold [])) = 1001"
    by (rule conjunct1)
  with m have "sum_list (map amount (handleSplitEqually 1001 abcHousehold [])) = 1001"
    by simp
  with m v show ?thesis by simp
qed

text \<open>
  The claim as written makes no exception for large totals. At 10^19 cents (an amount of
  100000000000000000 in the form), which is a double, the quotient by three rounds to a
  multiple of 512 and adding the extra cent changes nothing: every member gets
  3333333333333333504, where the floor of the third is 3333333333333333333.
\<close>

theorem handleSplitEqually_large_total:
  "fl 10000000000000000000 = 10000000000000000000
   \<and> map amount (handleSplitEqually 10000000000000000000 abcHousehold [])
       = [3333333333333333504, 3333333333333333504, 3333333333333333504]
   \<and> (10000000000000000000::int) div 3 = 3333333333333333333
   \<and> (10000000000000000000::int) mod 3 = 1
   \<and> sum_list [3333333333333333504, 3333333333333333504, 3333333333333333504]
       \<noteq> (10000000000000000000::int)"
proof (intro conjI)
  show "fl 10000000000000000000 = 10000000000000000000"
    by code_simp
  show "map amount (handleSplitEqually 10000000000000000000 abcHousehold [])
       = [3333333333333333504, 3333333333333333504, 3333333333333333504]"
    by code_simp
qed simp_all

section \<open>Submission: properties\<close>

lemma foldl_add_amount: "foldl (\<lambda>sum split. sum + amount split) a ss = a + sum_list (map amount ss)"
  by (induction ss arbitrary: a) simp_all

lemma totalSplitAmount_sum_list: "totalSplitAmount ss = sum_list (map amount ss)"
  by (simp add: totalSplitAmount_def foldl_add_amount)

lemma sum_list_filter_pos:
  "\<forall>s \<in> set ss. 0 \<le> amount s \<Longrightarrow>
   sum_list (map amount (filter (\<lambda>s. amount s > 0) ss)) = sum_list (map amount ss)"
  by (induction ss) auto

text \<open>
  What \<open>handleSubmit\<close> guarantees: a form with an empty trimmed description, a total
  that is not positive, or splits that do not add up to the total is rejected; an
  accepted submission carries no zero split, and when no share is negative the splits it
  carries add up to its amount.
\<close>

lemma handleSubmit_rejects:
  "trim (f_description f) = [] \<or> f_totalAmountCents f \<le> 0
     \<or> sum_list (map amount (f_splits f)) \<noteq> f_totalAmountCents f
   \<Longrightarrow> handleSubmit f = Rejected"
  by (auto simp: handleSubmit_def remainingAmount_def totalSplitAmount_sum_list)

lemma handleSubmit_accepts:
  assumes "handleSubmit f = Submitted e"
  shows "(\<forall>s \<in> set (splits e). amount s \<noteq> 0)
       \<and> splits e = filter (\<lambda>s. amount s > 0) (f_splits f)
       \<and> ((\<forall>s \<in> set (f_splits f). 0 \<le> amount s) \<longrightarrow>
            sum_list (map amount (splits e)) = e_amount e)"
  using assms
  by (auto simp: handleSubmit_def remainingAmount_def totalSplitAmount_sum_list
      sum_list_filter_pos split: if_splits option.splits)

text \<open>
  Claim C2. An accepted submission is meant to persist splits that add up to the
  expense's amount. The form with a negative share is accepted (its shares add up to the
  total), the negative share is dropped with the zero ones, and the splits handed on add
  up to 1500 for an expense of 1000.
\<close>

theorem handleSubmit_negative_share:
  "handleSubmit negativeShareForm =
     Submitted \<lparr>e_description = ''Dinner'', e_amount = 1000, e_date = day 2025 2 14,
                e_memberId = ''mem-1'', e_categoryId = ''cat-1'',
                splits = [\<lparr>memberId = ''mem-1'', amount = 1500\<rparr>]\<rparr>
   \<and> sum_list (map amount (f_splits negativeShareForm)) = f_totalAmountCents negativeShareForm
   \<and> sum_list (map amount [\<lparr>memberId = ''mem-1'', amount = 1500\<rparr>]) \<noteq> (1000::int)"
  by (simp add: handleSubmit_def negativeShareForm_def remainingAmount_def
      totalSplitAmount_def trim_def isWhiteSpace_def)

section \<open>Adding an expense: properties\<close>

lemma foldl_add_e_amount:
  "foldl (\<lambda>sum e. sum + e_amount e) a (es :: Expense list) = a + sum_list (map e_amount es)"
  by (induction es arbitrary: a) simp_all

lemma spentBefore_sum_list:
  "spentBefore env h ne =
     sum_list (map e_amount (filter (\<lambda>e. e_categoryId e = e_categoryId ne
                                          \<and> getTime (e_date e) \<ge> startOfMonth env) (expenses h)))"
  by (simp add: spentBefore_def foldl_add_e_amount)

lemma budgetAlertCheck_cases:
  assumes "find (\<lambda>b. b_categoryId b = e_categoryId ne) (budgets h) = Some b" "0 < b_amount b"
  shows "budgetAlertCheck env h ne =
     (if spentBefore env h ne < b_amount b \<and> spentBefore env h ne + e_amount ne \<ge> b_amount b
      then [budgetExceeded env h ne b]
      else if real_of_int (spentBefore env h ne) < 0.9 * real_of_int (b_amount b)
              \<and> real_of_int (spentBefore env h ne + e_amount ne) \<ge> 0.9 * real_of_int (b_amount b)
              \<and> spentBefore env h ne + e_amount ne < b_amount b
      then [budgetWarning env h ne b]
      else [])"
  using assms by (simp add: budgetAlertCheck_def Let_def mult.commute)

lemma budgetAlertCheck_length: "length (budgetAlertCheck env h ne) \<le> 1"
  by (simp add: budgetAlertCheck_def Let_def split: option.splits)

text \<open>
  What the budget check does with the amount \<open>s0\<close> it computes (\<open>spentBefore\<close>, the
  expenses of the category dated from the start of the current month on) and
  \<open>s1 = s0 + amount\<close>, for a budget \<open>b > 0\<close>: the budget-exceeded notification
  iff \<open>s0 < b \<le> s1\<close>, otherwise the approaching-budget notification iff
  \<open>s0 < 0.9 b \<le> s1 < b\<close>, nothing else, and never both.
\<close>

lemma budgetAlertCheck_on_spentBefore:
  fixes env h ne bu
  defines "b \<equiv> b_amount bu"
    and "s0 \<equiv> spentBefore env h ne"
    and "s1 \<equiv> spentBefore env h ne + e_amount ne"
    and "R \<equiv> budgetAlertCheck env h ne"
  assumes budget: "find (\<lambda>bu. b_categoryId bu = e_categoryId ne) (budgets h) = Some bu"
    and positive: "0 < b_amount bu"
  shows "(budgetExceeded env h ne bu \<in> set R \<longleftrightarrow> s0 < b \<and> s1 \<ge> b)
       \<and> (budgetWarning env h ne bu \<in> set R \<longleftrightarrow>
            \<not> (s0 < b \<and> s1 \<ge> b)
            \<and> real_of_int s0 < 0.9 * real_of_int b \<and> real_of_int s1 \<ge> 0.9 * real_of_int b
            \<and> s1 < b)
       \<and> n_type (budgetExceeded env h ne bu) = Error
       \<and> n_type (budgetWarning env h ne bu) = Warning
       \<and> (\<forall>n \<in> set R. n = budgetExceeded env h ne bu \<or> n = budgetWarning env h ne bu)
       \<and> \<not> (budgetExceeded env h ne bu \<in> set R \<and> budgetWarning env h ne bu \<in> set R)
       \<and> length R \<le> 1"
proof -
  have ne: "budgetExceeded env h ne bu \<noteq> budgetWarning env h ne bu"
    by (simp add: budgetExceeded_def budgetWarning_def)
  have R: "R = (if s0 < b \<and> s1 \<ge> b then [budgetExceeded env h ne bu]
                else if real_of_int s0 < 0.9 * real_of_int b \<and> real_of_int s1 \<ge> 0.9 * real_of_int b
                        \<and> s1 < b
                then [budgetWarning env h ne bu] else [])"
    using budgetAlertCheck_cases [OF budget positive, of env]
    by (simp add: b_def s0_def s1_def R_def)
  show ?thesis
    using ne by (auto simp: R budgetExceeded_def budgetWarning_def)
qed

text \<open>
  Claim C3. The claim takes \<open>s0\<close> to be the spend recorded for the category in the
  current month. The code sums every expense of the category dated from the start of the
  month on, with no end of the month. In March 2025, with nothing spent in March and
  1,900,000 cents dated 20 April against a budget of 2,000,000, adding 200,000 cents
  gives \<open>s0 = 1,900,000\<close> and the budget-exceeded error; with the spend of March
  (the figure the dashboard shows against the budget), \<open>s0 = 0\<close> and \<open>s1 = 200,000\<close>,
  neither notification is due.
\<close>

theorem budgetAlertCheck_counts_later_months:
  "find (\<lambda>bu. b_categoryId bu = e_categoryId marchExpense) (budgets aprilHousehold)
     = Some \<lparr>b_id = ''bud-1'', b_categoryId = ''cat-1'', b_amount = 2000000\<rparr>
   \<and> filter (\<lambda>e. getFullYear (e_date e) = 2025 \<and> getMonth (e_date e) = 2)
        (expenses aprilHousehold) = []
   \<and> map (\<lambda>e. (getFullYear (e_date e), getMonth (e_date e), getDate (e_date e)))
        (expenses aprilHousehold) = [(2025, 3, 20)]
   \<and> categorySpent (expensesThisMonth 2 aprilHousehold)
        \<lparr>b_id = ''bud-1'', b_categoryId = ''cat-1'', b_amount = 2000000\<rparr> = 0
   \<and> spentBefore marchEnv aprilHousehold marchExpense = 1900000
   \<and> budgetAlertCheck marchEnv aprilHousehold marchExpense
       = [budgetExceeded marchEnv aprilHousehold marchExpense
            \<lparr>b_id = ''bud-1'', b_categoryId = ''cat-1'', b_amount = 2000000\<rparr>]
   \<and> n_type (budgetExceeded marchEnv aprilHousehold marchExpense
            \<lparr>b_id = ''bud-1'', b_categoryId = ''cat-1'', b_amount = 2000000\<rparr>) = Error
   \<and> \<not> ((0::int) < 2000000 \<and> 0 + e_amount marchExpense \<ge> 2000000)
   \<and> \<not> (real_of_int (0 + e_amount marchExpense) \<ge> 0.9 * real_of_int 2000000)"
proof (intro conjI)
  show f: "find (\<lambda>bu. b_categoryId bu = e_categoryId marchExpense) (budgets aprilHousehold)
     = Some \<lparr>b_id = ''bud-1'', b_categoryId = ''cat-1'', b_amount = 2000000\<rparr>"
    by (simp add: aprilHousehold_def marchExpense_def)
  show "filter (\<lambda>e. getFullYear (e_date e) = 2025 \<and> getMonth (e_date e) = 2)
        (expenses aprilHousehold) = []"
    by (simp add: aprilHousehold_def)
  show "map (\<lambda>e. (getFullYear (e_date e), getMonth (e_date e), getDate (e_date e)))
        (expenses aprilHousehold) = [(2025, 3, 20)]"
    by (simp add: aprilHousehold_def)
  show "categorySpent (expensesThisMonth 2 aprilHousehold)
        \<lparr>b_id = ''bud-1'', b_categoryId = ''cat-1'', b_amount = 2000000\<rparr> = 0"
    by (simp add: categorySpent_def expensesThisMonth_def aprilHousehold_def)
  show s: "spentBefore marchEnv aprilHousehold marchExpense = 1900000"
    by (simp add: spentBefore_def aprilHousehold_def marchExpense_def marchEnv_def)
  have a: "e_amount marchExpense = 200000" by (simp add: marchExpense_def)
  show "budgetAlertCheck marchEnv aprilHousehold marchExpense
       = [budgetExceeded marchEnv aprilHousehold marchExpense
            \<lparr>b_id = ''bud-1'', b_categoryId = ''cat-1'', b_amount = 2000000\<rparr>]"
    by (simp add: budgetAlertCheck_def f s a Let_def)
  show "n_type (budgetExceeded marchEnv aprilHousehold marchExpense
            \<lparr>b_id = ''bud-1'', b_categoryId = ''cat-1'', b_amount = 2000000\<rparr>) = Error"
    by (simp add: budgetExceeded_def)
  show "\<not> ((0::int) < 2000000 \<and> 0 + e_amount marchExpense \<ge> 2000000)"
    by (simp add: a)
  show "\<not> (real_of_int (0 + e_amount marchExpense) \<ge> 0.9 * real_of_int 2000000)"
    by (simp add: a)
qed

lemma addExpense_fresh:
  "e_id e \<notin> set (map (\<lambda>r. e_id (fst r)) (t_expenses d)) \<Longrightarrow>
   distinct (map n_id (t_notifications d @ ns)) \<Longrightarrow>
   addExpense (Some d) e ns =
     Some (d\<lparr>t_expenses := t_expenses d @ [(e, None)],
              t_notifications := t_notifications d @ ns\<rparr>)"
  by (simp add: addExpense_def)

lemma expenseWithId_fields:
  "expenseWithId env ne =
     \<lparr>e_description = e_description ne, e_amount = e_amount ne, e_date = e_date ne,
      e_memberId = e_memberId ne, e_categoryId = e_categoryId ne, splits = splits ne,
      e_id = ''exp-'' @ randomUUID env 0\<rparr>"
  by (simp add: expenseWithId_def NewExpense.extend_def Expense.fields_def)

text \<open>
  Claim C4. When the anomaly check rejects, the notifications to add are exactly those of
  the budget check (at most one) and, the keys being fresh in an open store, the expense
  and these notifications are persisted: the row appended to the expenses has every field
  of the submitted expense and the generated id, and belongs to no trip. The function has
  no result other than the store, so nothing is thrown on. When the check resolves and
  flags the expense, one warning-severity notification carrying the reasoning text follows
  the budget notification, if any.
\<close>

theorem handleAddExpense_oracle_isolation:
  fixes env h d ne r
  defines "budgetNs \<equiv> budgetAlertCheck env h ne"
    and "anomaly \<equiv>
           \<lparr>n_id = ''notif-anomaly-'' @ randomUUID env (1 + length (budgetAlertCheck env h ne)),
            message = ''Unusual Spending Alert: '' @ reasoning r,
            n_date = nowISO env, n_type = Warning, isRead = False\<rparr>"
    and "row \<equiv>
           \<lparr>e_description = e_description ne, e_amount = e_amount ne, e_date = e_date ne,
            e_memberId = e_memberId ne, e_categoryId = e_categoryId ne, splits = splits ne,
            e_id = ''exp-'' @ randomUUID env 0\<rparr>"
  shows "notificationsToAdd env h ne Rejects = budgetNs
       \<and> length budgetNs \<le> 1
       \<and> (isAnomalous r \<longrightarrow> notificationsToAdd env h ne (Resolves r) = budgetNs @ [anomaly])
       \<and> (\<not> isAnomalous r \<longrightarrow> notificationsToAdd env h ne (Resolves r) = budgetNs)
       \<and> expenseWithId env ne = row
       \<and> (\<forall>outcome.
             e_id (expenseWithId env ne) \<notin> set (map (\<lambda>row. e_id (fst row)) (t_expenses d))
             \<and> distinct (map n_id (t_notifications d @ notificationsToAdd env h ne outcome))
             \<longrightarrow> handleAddExpense env h (Some d) ne outcome =
                   Some (d\<lparr>t_expenses := t_expenses d @ [(expenseWithId env ne, None)],
                            t_notifications :=
                              t_notifications d @ notificationsToAdd env h ne outcome\<rparr>))
       \<and> (e_id row \<notin> set (map (\<lambda>row. e_id (fst row)) (t_expenses d))
            \<and> distinct (map n_id (t_notifications d @ budgetNs))
          \<longrightarrow> handleAddExpense env h (Some d) ne Rejects =
                Some \<lparr>t_expenses = t_expenses d @ [(row, None)],
                      t_notifications = t_notifications d @ budgetNs\<rparr>)"
proof (intro conjI allI impI)
  show rej: "notificationsToAdd env h ne Rejects = budgetNs"
    by (simp add: notificationsToAdd_def anomalyDetectionCheck_def budgetNs_def)
  show "length budgetNs \<le> 1"
    unfolding budgetNs_def by (rule budgetAlertCheck_length)
  show "notificationsToAdd env h ne (Resolves r) = budgetNs @ [anomaly]" if "isAnomalous r"
    using that
    by (simp add: notificationsToAdd_def anomalyDetectionCheck_def budgetNs_def anomaly_def Let_def)
  show "notificationsToAdd env h ne (Resolves r) = budgetNs" if "\<not> isAnomalous r"
    using that
    by (simp add: notificationsToAdd_def anomalyDetectionCheck_def budgetNs_def)
  show row: "expenseWithId env ne = row"
    unfolding row_def by (rule expenseWithId_fields)
  show gen: "handleAddExpense env h (Some d) ne outcome =
          Some (d\<lparr>t_expenses := t_expenses d @ [(expenseWithId env ne, None)],
                   t_notifications := t_notifications d @ notificationsToAdd env h ne outcome\<rparr>)"
    if "e_id (expenseWithId env ne) \<notin> set (map (\<lambda>row. e_id (fst row)) (t_expenses d))
        \<and> distinct (map n_id (t_notifications d @ notificationsToAdd env h ne outcome))"
    for outcome
    using that unfolding handleAddExpense_def by (intro addExpense_fresh) simp_all
  show "handleAddExpense env h (Some d) ne Rejects =
          Some \<lparr>t_expenses = t_expenses d @ [(row, None)],
                t_notifications = t_notifications d @ budgetNs\<rparr>"
    if "e_id row \<notin> set (map (\<lambda>row. e_id (fst row)) (t_expenses d))
        \<and> distinct (map n_id (t_notifications d @ budgetNs))"
    using that gen [of Rejects] by (simp add: row rej)
qed

theorem handleAddExpense_oracle_isolation_witness:
  "''exp-u'' \<notin> set (map (\<lambda>row. e_id (fst row)) (t_expenses emptyDb))
   \<and> distinct (map n_id (t_notifications emptyDb
                  @ budgetAlertCheck exampleEnv budgetHousehold bigExpense))
   \<and> handleAddExpense exampleEnv budgetHousehold (Some emptyDb) bigExpense Rejects =
       Some \<lparr>t_expenses =
               [(\<lparr>e_description = ''Party'', e_amount = 1900000, e_date = day 2025 2 15,
                  e_memberId = ''mem-1'', e_categoryId = ''cat-1'',
                  splits = [\<lparr>memberId = ''mem-1'', amount = 1900000\<rparr>],
                  e_id = ''exp-u''\<rparr>, None)],
             t_notifications =
               [\<lparr>n_id = ''notif-budget-warning-uu'',
                 message = ''You're approaching your INR budget for Groceries.'',
                 n_date = ''2025-03-15T10:00:00.000Z'', n_type = Warning, isRead = False\<rparr>]\<rparr>
   \<and> notificationsToAdd exampleEnv budgetHousehold bigExpense
        (Resolves \<lparr>isAnomalous = True, reasoning = ''Much higher than usual.''\<rparr>)
       = [\<lparr>n_id = ''notif-budget-warning-uu'',
           message = ''You're approaching your INR budget for Groceries.'',
           n_date = ''2025-03-15T10:00:00.000Z'', n_type = Warning, isRead = False\<rparr>,
          \<lparr>n_id = ''notif-anomaly-uuu'',
           message = ''Unusual Spending Alert: Much higher than usual.'',
           n_date = ''2025-03-15T10:00:00.000Z'', n_type = Warning, isRead = False\<rparr>]"
proof -
  let ?bu = "\<lparr>b_id = ''bud-1'', b_categoryId = ''cat-1'', b_amount = 2000000\<rparr>"
  let ?w = "\<lparr>n_id = ''notif-budget-warning-uu'',
             message = ''You're approaching your INR budget for Groceries.'',
             n_date = ''2025-03-15T10:00:00.000Z'', n_type = Warning, isRead = False\<rparr>"
  have b0: "budgetAlertCheck exampleEnv budgetHousehold bigExpense
             = [budgetWarning exampleEnv budgetHousehold bigExpense ?bu]"
    by (simp add: budgetAlertCheck_def spentBefore_def budgetHousehold_def Let_def)
       (simp add: bigExpense_def)
  have w: "budgetWarning exampleEnv budgetHousehold bigExpense ?bu = ?w"
    by (simp add: budgetWarning_def exampleEnv_def categoryName_def budgetHousehold_def
        bigExpense_def)
  have b: "budgetAlertCheck exampleEnv budgetHousehold bigExpense = [?w]"
    by (simp only: b0 w)
  have fresh: "''exp-u'' \<notin> set (map (\<lambda>row. e_id (fst row)) (t_expenses emptyDb))"
    by (simp add: emptyDb_def)
  have dist: "distinct (map n_id (t_notifications emptyDb
                @ budgetAlertCheck exampleEnv budgetHousehold bigExpense))"
    by (simp add: emptyDb_def b)
  have u0: "randomUUID exampleEnv 0 = ''u''" by (simp add: exampleEnv_def)
  have u2: "randomUUID exampleEnv (Suc (Suc 0)) = ''uuu''"
    by (simp add: exampleEnv_def)
  have iso: "nowISO exampleEnv = ''2025-03-15T10:00:00.000Z''" by (simp add: exampleEnv_def)
  have fields: "e_description bigExpense = ''Party'' \<and> e_amount bigExpense = 1900000
      \<and> e_date bigExpense = day 2025 2 15 \<and> e_memberId bigExpense = ''mem-1''
      \<and> e_categoryId bigExpense = ''cat-1''
      \<and> splits bigExpense = [\<lparr>memberId = ''mem-1'', amount = 1900000\<rparr>]"
    by (simp add: bigExpense_def)
  note T = handleAddExpense_oracle_isolation
      [of exampleEnv budgetHousehold bigExpense
          "\<lparr>isAnomalous = True, reasoning = ''Much higher than usual.''\<rparr>" emptyDb]
  from T fresh dist have stored:
    "handleAddExpense exampleEnv budgetHousehold (Some emptyDb) bigExpense Rejects =
       Some \<lparr>t_expenses = t_expenses emptyDb @
                [(\<lparr>e_description = e_description bigExpense, e_amount = e_amount bigExpense,
                   e_date = e_date bigExpense, e_memberId = e_memberId bigExpense,
                   e_categoryId = e_categoryId bigExpense, splits = splits bigExpense,
                   e_id = ''exp-'' @ randomUUID exampleEnv 0\<rparr>, None)],
             t_notifications = t_notifications emptyDb
                @ budgetAlertCheck exampleEnv budgetHousehold bigExpense\<rparr>"
    by (simp add: u0)
  from T have flagged:
    "notificationsToAdd exampleEnv budgetHousehold bigExpense
        (Resolves \<lparr>isAnomalous = True, reasoning = ''Much higher than usual.''\<rparr>)
       = budgetAlertCheck exampleEnv budgetHousehold bigExpense
         @ [\<lparr>n_id = ''notif-anomaly-''
                  @ randomUUID exampleEnv
                      (1 + length (budgetAlertCheck exampleEnv budgetHousehold bigExpense)),
              message = ''Unusual Spending Alert: ''
                  @ reasoning \<lparr>isAnomalous = True, reasoning = ''Much higher than usual.''\<rparr>,
              n_date = nowISO exampleEnv, n_type = Warning, isRead = False\<rparr>]"
    by simp
  have one: "1 + length [?w] = (2::nat)" by simp
  show ?thesis
    using fresh dist stored flagged
    by (simp add: b u0 u2 iso fields emptyDb_def one)
qed

section \<open>Monthly figures: properties\<close>

lemma foldl_init_apply:
  "foldl (\<lambda>memberSpending m. memberSpending(m_id m \<mapsto> (0::int))) acc (ms :: Member list) k
     = (if k \<in> m_id ` set ms then Some 0 else acc k)"
  by (induction ms arbitrary: acc) auto

lemma initSpending_apply:
  "initSpending ms k = (if k \<in> m_id ` set ms then Some 0 else None)"
  by (simp add: initSpending_def foldl_init_apply)

lemma foldl_addSplit_apply:
  "foldl addSplit acc ss k =
     (case acc k of None \<Rightarrow> None
      | Some v \<Rightarrow> Some (v + (\<Sum>s\<leftarrow>filter (\<lambda>s. memberId s = k) ss. amount s)))"
  by (induction ss arbitrary: acc) (auto simp: addSplit_def split: option.splits)

lemma foldl_expenses_apply:
  "foldl (\<lambda>acc expense. foldl addSplit acc (splits expense)) acc (exps :: Expense list) k =
     (case acc k of None \<Rightarrow> None | Some v \<Rightarrow> Some (v + shareOf k exps))"
  by (induction exps arbitrary: acc)
     (auto simp: foldl_addSplit_apply shareOf_def split: option.splits)

lemma memberSpending_apply:
  "memberSpending ms exps k = (if k \<in> m_id ` set ms then Some (shareOf k exps) else None)"
  by (simp add: memberSpending_def foldl_expenses_apply initSpending_apply)




lemma totalSpentByMembers_sum:
  "totalSpentByMembers rs = sum_list (map spent rs)"
proof -
  have "\<And>a. foldl (\<lambda>sum m. sum + spent m) a rs = a + sum_list (map spent rs)"
    by (induction rs) simp_all
  then show ?thesis by (simp add: totalSpentByMembers_def)
qed

lemma sum_spendingByMember:
  "sum_list (map spent (spendingByMember ms exps)) = (\<Sum>m\<leftarrow>ms. shareOf (m_id m) exps)"
proof -
  have "image_mset spent (mset (spendingByMember ms exps))
             = image_mset (\<lambda>m. the (memberSpending ms exps (m_id m))) (mset ms)"
    by (simp add: spendingByMember_def multiset.map_comp comp_def
        Member.extend_def MemberSpent.fields_def)
  also have "\<dots> = image_mset (\<lambda>m. shareOf (m_id m) exps) (mset ms)"
    by (rule image_mset_cong) (simp add: memberSpending_apply)
  finally have "sum_mset (image_mset spent (mset (spendingByMember ms exps)))
        = sum_mset (image_mset (\<lambda>m. shareOf (m_id m) exps) (mset ms))"
    by simp
  then show ?thesis
    by (metis mset_map sum_mset_sum_list)
qed

lemma shareOf_known:
  "k \<in> m_id ` set ms \<Longrightarrow> shareOf k (map (knownSplits ms) exps) = shareOf k exps"
  by (induction exps)
     (auto simp: shareOf_def knownSplits_def
       intro!: arg_cong[where f=sum_list] arg_cong2[where f=map] filter_cong)


lemma sum_list_filter_disj:
  "\<forall>x \<in> set xs. \<not> (P x \<and> Q x) \<Longrightarrow>
   sum_list (map f (filter (\<lambda>x. P x \<or> Q x) xs))
     = sum_list (map f (filter P xs)) + (sum_list (map f (filter Q xs)) :: int)"
  by (induction xs) auto

lemma sum_shareOf_distinct:
  "distinct (map m_id ms) \<Longrightarrow>
   (\<Sum>m\<leftarrow>ms. shareOf (m_id m) exps)
     = (\<Sum>e\<leftarrow>exps. \<Sum>s\<leftarrow>filter (\<lambda>s. memberId s \<in> m_id ` set ms) (splits e). amount s)"
proof (induction ms)
  case Nil
  then show ?case by (simp add: shareOf_def)
next
  case (Cons m ms)
  have "\<And>e :: Expense. (\<Sum>s\<leftarrow>filter (\<lambda>s. memberId s \<in> m_id ` set (m # ms)) (splits e). amount s)
       = (\<Sum>s\<leftarrow>filter (\<lambda>s. memberId s = m_id m) (splits e). amount s)
         + (\<Sum>s\<leftarrow>filter (\<lambda>s. memberId s \<in> m_id ` set ms) (splits e). amount s)"
    subgoal for e
      using Cons.prems sum_list_filter_disj [of "splits e" "\<lambda>s. memberId s = m_id m"
          "\<lambda>s. memberId s \<in> m_id ` set ms" amount]
      by auto
    done
  with Cons show ?case
    by (simp add: shareOf_def sum_list_addf)
qed

lemma spendingByMember_knownSplits:
  "spendingByMember ms exps = spendingByMember ms (map (knownSplits ms) exps)"
proof -
  have "map (\<lambda>m. Member.extend m (MemberSpent.fields (the (memberSpending ms exps (m_id m))))) ms
      = map (\<lambda>m. Member.extend m (MemberSpent.fields
               (the (memberSpending ms (map (knownSplits ms) exps) (m_id m))))) ms"
    by (rule map_cong) (simp_all add: memberSpending_apply shareOf_known)
  then show ?thesis unfolding spendingByMember_def by (rule arg_cong)
qed



text \<open>
  Claim C10. A split whose member id belongs to no member of the household is ignored by
  the per-member aggregation: the listed totals are those of the expenses without such
  splits, no entry is made for the unknown id, every member's total is a number, and so
  the listed totals can add up to less than all the split amounts do (with distinct
  member ids they add up to the amounts of the splits of known members).
\<close>

theorem spendingByMember_unknown_ignored:
  "spendingByMember ms exps = spendingByMember ms (map (knownSplits ms) exps)
   \<and> (\<forall>m \<in> set ms. memberSpending ms exps (m_id m) \<noteq> None)
   \<and> (\<forall>e \<in> set exps. \<forall>s \<in> set (splits e).
         memberId s \<notin> m_id ` set ms \<longrightarrow> memberSpending ms exps (memberId s) = None)
   \<and> (distinct (map m_id ms) \<longrightarrow>
         totalSpentByMembers (spendingByMember ms exps)
           = (\<Sum>e\<leftarrow>exps. \<Sum>s\<leftarrow>filter (\<lambda>s. memberId s \<in> m_id ` set ms) (splits e). amount s))
   \<and> totalSpentByMembers (spendingByMember abc marchExpenses)
       < (\<Sum>e\<leftarrow>marchExpenses. \<Sum>s\<leftarrow>splits e. amount s)"
proof (intro conjI ballI impI)
  show "spendingByMember ms exps = spendingByMember ms (map (knownSplits ms) exps)"
    by (rule spendingByMember_knownSplits)
  show "memberSpending ms exps (m_id m) \<noteq> None" if "m \<in> set ms" for m
    using that by (simp add: memberSpending_apply)
  show "memberSpending ms exps (memberId s) = None" if "memberId s \<notin> m_id ` set ms" for s
    using that by (simp add: memberSpending_apply)
  show "totalSpentByMembers (spendingByMember ms exps)
          = (\<Sum>e\<leftarrow>exps. \<Sum>s\<leftarrow>filter (\<lambda>s. memberId s \<in> m_id ` set ms) (splits e). amount s)"
    if "distinct (map m_id ms)"
    using that
    by (simp add: totalSpentByMembers_sum sum_spendingByMember sum_shareOf_distinct)
  have "totalSpentByMembers (spendingByMember abc marchExpenses) = 1200"
    by (simp add: totalSpentByMembers_sum sum_spendingByMember shareOf_def abc_def
        marchExpenses_def)
  moreover have "(\<Sum>e\<leftarrow>marchExpenses. \<Sum>s\<leftarrow>splits e. amount s) = 1500"
    by (simp add: marchExpenses_def)
  ultimately show "totalSpentByMembers (spendingByMember abc marchExpenses)
                     < (\<Sum>e\<leftarrow>marchExpenses. \<Sum>s\<leftarrow>splits e. amount s)"
    by simp
qed

theorem spendingByMember_unknown_ignored_witness:
  "distinct (map m_id abc)
   \<and> \<lparr>m_id = ''mem-2'', m_name = ''Bea'', avatarUrl = ''''\<rparr> \<in> set abc
   \<and> memberSpending abc marchExpenses ''mem-2'' = Some 400
   \<and> marchExpenses ! 2 \<in> set marchExpenses
   \<and> \<lparr>memberId = ''mem-9'', amount = 300\<rparr> \<in> set (splits (marchExpenses ! 2))
   \<and> ''mem-9'' \<notin> m_id ` set abc
   \<and> memberSpending abc marchExpenses ''mem-9'' = None
   \<and> totalSpentByMembers (spendingByMember abc marchExpenses) = 1200"
proof -
  have d: "distinct (map m_id abc)" by (simp add: abc_def)
  have m: "\<lparr>m_id = ''mem-2'', m_name = ''Bea'', avatarUrl = ''''\<rparr> \<in> set abc"
    by (simp add: abc_def)
  have e: "marchExpenses ! 2 \<in> set marchExpenses" by (simp add: marchExpenses_def)
  have s: "\<lparr>memberId = ''mem-9'', amount = 300\<rparr> \<in> set (splits (marchExpenses ! 2))"
    by (simp add: marchExpenses_def)
  have u: "''mem-9'' \<notin> m_id ` set abc" by (simp add: abc_def)
  have k: "(\<Sum>e\<leftarrow>marchExpenses. \<Sum>s\<leftarrow>filter (\<lambda>s. memberId s \<in> m_id ` set abc) (splits e). amount s)
             = 1200"
    by (simp add: abc_def marchExpenses_def)
  have v: "memberSpending abc marchExpenses ''mem-2'' = Some 400"
    by (simp add: memberSpending_apply shareOf_def abc_def marchExpenses_def)
  note T = spendingByMember_unknown_ignored [of abc marchExpenses]
  from T have "\<forall>e \<in> set marchExpenses. \<forall>s \<in> set (splits e).
         memberId s \<notin> m_id ` set abc \<longrightarrow> memberSpending abc marchExpenses (memberId s) = None"
    by blast
  from this e s have "memberId \<lparr>memberId = ''mem-9'', amount = 300\<rparr> \<notin> m_id ` set abc \<longrightarrow>
      memberSpending abc marchExpenses (memberId \<lparr>memberId = ''mem-9'', amount = 300\<rparr>) = None"
    by blast
  with u have n: "memberSpending abc marchExpenses ''mem-9'' = None" by simp
  from T d have "totalSpentByMembers (spendingByMember abc marchExpenses)
      = (\<Sum>e\<leftarrow>marchExpenses. \<Sum>s\<leftarrow>filter (\<lambda>s. memberId s \<in> m_id ` set abc) (splits e). amount s)"
    by blast
  with k have t: "totalSpentByMembers (spendingByMember abc marchExpenses) = 1200" by simp
  show ?thesis
    using d m e s u n t v by simp
qed

section \<open>Category suggestion: properties\<close>

lemma includes_sublist: "str_includes s k \<longleftrightarrow> sublist k s"
  by (induction s) (auto simp: sublist_Cons_right)

lemma firstMatch_find:
  "firstMatch d rs =
     (case find (\<lambda>rule. sublist (toLowerCase (keyword rule)) d) rs of
        None \<Rightarrow> None
      | Some rule \<Rightarrow> Some (r_categoryId rule))"
  by (induction rs) (simp_all add: includes_sublist)

text \<open>
  Claim C7, as the code has it. The description and the keywords are lower-cased, the
  rules are tried in list order for substring containment, and the category id of the
  first matching rule is returned; the result is none exactly when no rule matches. The
  list of categories is not consulted. With the rule netflix -> cat-5, "NETFLIX Monthly"
  gives cat-5 and "netflex" gives none.
\<close>

theorem suggestCategory_first_match:
  "suggestCategory description ruleList categoryList =
     (case find (\<lambda>rule. sublist (toLowerCase (keyword rule)) (toLowerCase description)) ruleList of
        None \<Rightarrow> None
      | Some rule \<Rightarrow> Some (r_categoryId rule))
   \<and> suggestCategory description ruleList categoryList = suggestCategory description ruleList []
   \<and> suggestCategory ''NETFLIX Monthly'' netflixRules categoryList = Some ''cat-5''
   \<and> suggestCategory ''netflex'' netflixRules categoryList = None"
proof (intro conjI)
  show "suggestCategory description ruleList categoryList =
     (case find (\<lambda>rule. sublist (toLowerCase (keyword rule)) (toLowerCase description)) ruleList of
        None \<Rightarrow> None
      | Some rule \<Rightarrow> Some (r_categoryId rule))"
    by (simp add: suggestCategory_def firstMatch_find)
  show "suggestCategory description ruleList categoryList = suggestCategory description ruleList []"
    by (simp add: suggestCategory_def)
  show "suggestCategory ''NETFLIX Monthly'' netflixRules categoryList = Some ''cat-5''"
    by (simp add: suggestCategory_def netflixRules_def toLowerCase_def lowerChar_def)
  show "suggestCategory ''netflex'' netflixRules categoryList = None"
    by (simp add: suggestCategory_def netflixRules_def toLowerCase_def lowerChar_def)
qed

text \<open>
  The claim as written also promises none when the matched rule's category id is not
  among the categories; with no category at all the suggestion is still cat-5.
\<close>

theorem suggestCategory_unknown_category:
  "suggestCategory ''NETFLIX Monthly'' netflixRules [] = Some ''cat-5''
   \<and> ''cat-5'' \<notin> set (map c_id [])"
  by (simp add: suggestCategory_def netflixRules_def toLowerCase_def lowerChar_def)

section \<open>Trend series: properties\<close>

lemma length_arraySet: "length (arraySet xs i v) = max (length xs) (Suc i)"
  by (auto simp: arraySet_def)

lemma nth_arraySet:
  "i < length xs \<Longrightarrow> arraySet xs i v ! j = (if j = i then v else xs ! j)"
  by (simp add: arraySet_def)

lemma length_fillCurrent:
  "i + length temp \<le> length cmd \<Longrightarrow> length (fillCurrent today cmd acc i temp) = length cmd"
  by (induction temp arbitrary: cmd acc i) (auto simp: length_arraySet)

lemma length_null_loop:
  "b \<le> length cmd \<Longrightarrow> length (foldl (\<lambda>cmd i. arraySet cmd i None) cmd [a..<b]) = length cmd"
  by (induction b) (auto simp: length_arraySet)

lemma null_loop_nth:
  "a \<le> j \<Longrightarrow> j < b \<Longrightarrow> b \<le> length cmd \<Longrightarrow>
   foldl (\<lambda>cmd i. arraySet cmd i None) cmd [a..<b] ! j = None"
proof (induction b)
  case 0
  then show ?case by simp
next
  case (Suc b)
  show ?case
  proof (cases "j = b")
    case True
    with Suc.prems show ?thesis
      by (simp add: nth_arraySet length_null_loop)
  next
    case False
    with Suc.prems have "j < b" "b \<le> length cmd" by simp_all
    with Suc.IH Suc.prems(1) have "foldl (\<lambda>cmd i. arraySet cmd i None) cmd [a..<b] ! j = None"
      by simp
    with Suc.prems False show ?thesis
      by (simp add: nth_arraySet length_null_loop)
  qed
qed

lemma length_addToDay: "length (addToDay temp d x) = length temp"
  by (simp add: addToDay_def)

lemma length_aggregateStep:
  "aggregateStep now dc dp (tc, tp) e = (tc', tp') \<Longrightarrow>
   length tc' = length tc \<and> length tp' = length tp"
  by (auto simp: Let_def length_addToDay split: if_splits)

lemma length_aggregate:
  "foldl (aggregateStep now dc dp) (tc, tp) es = (tc', tp') \<Longrightarrow>
   length tc' = length tc \<and> length tp' = length tp"
proof (induction es arbitrary: tc tp)
  case Nil
  then show ?case by simp
next
  case (Cons e es)
  obtain tc1 tp1 where s: "aggregateStep now dc dp (tc, tp) e = (tc1, tp1)"
    by (cases "aggregateStep now dc dp (tc, tp) e")
  with Cons.prems have "foldl (aggregateStep now dc dp) (tc1, tp1) es = (tc', tp')" by simp
  with Cons.IH have "length tc' = length tc1 \<and> length tp' = length tp1" by blast
  with length_aggregateStep [OF s] show ?case by simp
qed

lemma length_fillPrevious: "length (fillPrevious pmd acc i temp) = length pmd"
  by (induction temp arbitrary: pmd acc i) auto

lemma length_matchLength: "length (matchLength d pmd) = d"
  by (auto simp: matchLength_def Let_def)

lemma fillPrevious_beyond:
  "i + length temp \<le> j \<Longrightarrow> fillPrevious pmd acc i temp ! j = pmd ! j"
  by (induction temp arbitrary: pmd acc i) auto

lemma matchLength_same: "length pmd = d \<Longrightarrow> matchLength d pmd = pmd"
  by (simp add: matchLength_def)

lemma prepareTrendData_fields:
  assumes "foldl (aggregateStep now (lastDayBefore (getFullYear now) (getMonth now + 1))
                    (lastDayBefore (getFullYear now) (getMonth now)))
             (replicate (lastDayBefore (getFullYear now) (getMonth now + 1)) 0,
              replicate (lastDayBefore (getFullYear now) (getMonth now)) 0) exps = (tc, tp)"
  shows "currentMonthData (prepareTrendData now exps) =
           foldl (\<lambda>cmd i. arraySet cmd i None)
             (fillCurrent (getDate now)
                (replicate (lastDayBefore (getFullYear now) (getMonth now + 1)) (Some 0)) 0 0 tc)
             [getDate now..<lastDayBefore (getFullYear now) (getMonth now + 1)]"
    and "previousMonthData (prepareTrendData now exps) =
           matchLength (lastDayBefore (getFullYear now) (getMonth now + 1))
             (fillPrevious (replicate (lastDayBefore (getFullYear now) (getMonth now + 1)) 0)
                0 0 tp)"
    and "labels (prepareTrendData now exps) =
           map (\<lambda>i. digitsOf (i + 1)) [0..<lastDayBefore (getFullYear now) (getMonth now + 1)]"
    and "length tc = lastDayBefore (getFullYear now) (getMonth now + 1)"
    and "length tp = lastDayBefore (getFullYear now) (getMonth now)"
  using assms length_aggregate [OF assms]
  by (simp_all add: prepareTrendData_def Let_def)

text \<open>
  Claim C8. Whatever the expenses and the date, the two series (and the labels) have as
  many entries as the current month has days, however many days the previous month has,
  and every entry of the current month for a day after today is null.
\<close>

theorem prepareTrendData_lengths:
  fixes now exps
  defines "r \<equiv> prepareTrendData now exps"
    and "n \<equiv> lastDayBefore (getFullYear now) (getMonth now + 1)"
  shows "n = daysInMonth (getFullYear now) (getMonth now)
       \<and> length (currentMonthData r) = n
       \<and> length (previousMonthData r) = n
       \<and> length (labels r) = n
       \<and> (\<forall>i. getDate now \<le> i \<and> i < n \<longrightarrow> currentMonthData r ! i = None)"
proof -
  obtain tc tp where
    agg: "foldl (aggregateStep now (lastDayBefore (getFullYear now) (getMonth now + 1))
                    (lastDayBefore (getFullYear now) (getMonth now)))
             (replicate (lastDayBefore (getFullYear now) (getMonth now + 1)) 0,
              replicate (lastDayBefore (getFullYear now) (getMonth now)) 0) exps = (tc, tp)"
    by (cases "foldl (aggregateStep now (lastDayBefore (getFullYear now) (getMonth now + 1))
                    (lastDayBefore (getFullYear now) (getMonth now)))
             (replicate (lastDayBefore (getFullYear now) (getMonth now + 1)) 0,
              replicate (lastDayBefore (getFullYear now) (getMonth now)) 0) exps")
  note f = prepareTrendData_fields [OF agg]
  have filled: "length (fillCurrent (getDate now) (replicate n (Some 0)) 0 0 tc) = n"
    using f(4) by (simp add: length_fillCurrent n_def)
  have "n = daysInMonth (getFullYear now) (getMonth now)"
    by (simp add: n_def lastDayBefore_def)
  moreover have "length (currentMonthData r) = n"
    using filled by (simp add: r_def f(1) length_null_loop n_def)
  moreover have "length (previousMonthData r) = n"
    by (simp add: r_def f(2) length_matchLength n_def)
  moreover have "length (labels r) = n"
    by (simp add: r_def f(3) n_def)
  moreover have "currentMonthData r ! i = None" if "getDate now \<le> i \<and> i < n" for i
    using that filled by (simp add: r_def f(1) null_loop_nth n_def)
  ultimately show ?thesis by blast
qed

theorem prepareTrendData_lengths_witness:
  "getDate (day 2025 2 15) \<le> 20
   \<and> 20 < lastDayBefore (getFullYear (day 2025 2 15)) (getMonth (day 2025 2 15) + 1)
   \<and> lastDayBefore 2025 2 = 28
   \<and> length (currentMonthData (prepareTrendData (day 2025 2 15) (febExpense # marchExpenses))) = 31
   \<and> length (previousMonthData (prepareTrendData (day 2025 2 15) (febExpense # marchExpenses))) = 31
   \<and> currentMonthData (prepareTrendData (day 2025 2 15) (febExpense # marchExpenses)) ! 20 = None
   \<and> currentMonthData (prepareTrendData (day 2025 2 15) (febExpense # marchExpenses)) ! 14 = Some 18"
proof -
  have n: "lastDayBefore (getFullYear (day 2025 2 15)) (getMonth (day 2025 2 15) + 1) = 31"
    by (simp add: day_def lastDayBefore_def daysInMonth_def)
  have p: "lastDayBefore 2025 2 = 28"
    by (simp add: lastDayBefore_def daysInMonth_def isLeapYear_def)
  have t: "getDate (day 2025 2 15) = 15" by (simp add: day_def)
  have v: "currentMonthData (prepareTrendData (day 2025 2 15) (febExpense # marchExpenses)) ! 14
             = Some 18"
    by code_simp
  note T = prepareTrendData_lengths [of "day 2025 2 15" "febExpense # marchExpenses",
      unfolded n t]
  from T have "\<forall>i. 15 \<le> i \<and> i < 31 \<longrightarrow>
      currentMonthData (prepareTrendData (day 2025 2 15) (febExpense # marchExpenses)) ! i = None"
    by blast
  then have "15 \<le> (20::nat) \<and> (20::nat) < 31 \<longrightarrow>
      currentMonthData (prepareTrendData (day 2025 2 15) (febExpense # marchExpenses)) ! 20 = None"
    by (rule spec)
  then have z: "currentMonthData (prepareTrendData (day 2025 2 15) (febExpense # marchExpenses)) ! 20
                  = None"
    by simp
  from T have c: "length (currentMonthData
      (prepareTrendData (day 2025 2 15) (febExpense # marchExpenses))) = 31"
    by blast
  from T have q: "length (previousMonthData
      (prepareTrendData (day 2025 2 15) (febExpense # marchExpenses))) = 31"
    by blast
  have "(20::nat) < lastDayBefore (getFullYear (day 2025 2 15)) (getMonth (day 2025 2 15) + 1)"
    unfolding n by simp
  with p t v z c q show ?thesis by simp
qed

lemma previousMonthData_tail:
  assumes "lastDayBefore (getFullYear now) (getMonth now) \<le> j"
    and "j < lastDayBefore (getFullYear now) (getMonth now + 1)"
  shows "previousMonthData (prepareTrendData now exps) ! j = 0"
proof -
  obtain tc tp where
    agg: "foldl (aggregateStep now (lastDayBefore (getFullYear now) (getMonth now + 1))
                    (lastDayBefore (getFullYear now) (getMonth now)))
             (replicate (lastDayBefore (getFullYear now) (getMonth now + 1)) 0,
              replicate (lastDayBefore (getFullYear now) (getMonth now)) 0) exps = (tc, tp)"
    by (cases "foldl (aggregateStep now (lastDayBefore (getFullYear now) (getMonth now + 1))
                    (lastDayBefore (getFullYear now) (getMonth now)))
             (replicate (lastDayBefore (getFullYear now) (getMonth now + 1)) 0,
              replicate (lastDayBefore (getFullYear now) (getMonth now)) 0) exps")
  note f = prepareTrendData_fields [OF agg]
  show ?thesis
    using assms f(5)
    by (simp add: f(2) matchLength_same length_fillPrevious fillPrevious_beyond)
qed

text \<open>
  Claim C9. The previous month's series is meant to be padded with its last cumulative
  value when the previous month is the shorter one. On 15 March 2025, with 10.00 spent
  on 10 February, the series reaches 10 on day 28 and is 0 on days 29, 30 and 31: the
  array is allocated with the current month's length and filled with zeros, so the
  branch that pads with the last value never runs.
\<close>

theorem prepareTrendData_short_previous_month:
  "lastDayBefore 2025 2 = 28 \<and> lastDayBefore 2025 3 = 31
   \<and> previousMonthData (prepareTrendData (day 2025 2 15) [febExpense]) ! 27 = 10
   \<and> previousMonthData (prepareTrendData (day 2025 2 15) [febExpense]) ! 28 = 0
   \<and> previousMonthData (prepareTrendData (day 2025 2 15) [febExpense]) ! 29 = 0
   \<and> previousMonthData (prepareTrendData (day 2025 2 15) [febExpense]) ! 30 = 0"
proof (intro conjI)
  show "lastDayBefore 2025 2 = 28"
    by (simp add: lastDayBefore_def daysInMonth_def isLeapYear_def)
  show "lastDayBefore 2025 3 = 31"
    by (simp add: lastDayBefore_def daysInMonth_def)
  show "previousMonthData (prepareTrendData (day 2025 2 15) [febExpense]) ! 27 = 10"
    by code_simp
  show "previousMonthData (prepareTrendData (day 2025 2 15) [febExpense]) ! 28 = 0"
    by code_simp
  show "previousMonthData (prepareTrendData (day 2025 2 15) [febExpense]) ! 29 = 0"
    by code_simp
  show "previousMonthData (prepareTrendData (day 2025 2 15) [febExpense]) ! 30 = 0"
    by code_simp
qed

section \<open>CSV export: properties\<close>

lemma digit_val_all: "\<forall>d \<in> set [0..<10]. of_char (''0123456789'' ! d) - 48 = (d::nat)"
  by code_simp

lemma digit_val: "d < 10 \<Longrightarrow> of_char (''0123456789'' ! d) - 48 = d"
  using digit_val_all by simp

lemma parseNat_snoc: "parseNat (s @ [ch]) = 10 * parseNat s + (of_char ch - 48)"
  by (simp add: parseNat_def)

lemma parseNat_digitsOf: "parseNat (digitsOf n) = n"
proof (induction n rule: digitsOf.induct)
  case (1 n)
  show ?case
  proof (cases "n < 10")
    case True
    then show ?thesis by (subst digitsOf.simps) (simp add: parseNat_def digit_val)
  next
    case False
    with 1 have "parseNat (digitsOf (n div 10)) = n div 10" by simp
    with False show ?thesis
      by (subst digitsOf.simps) (simp add: parseNat_snoc digit_val)
  qed
qed

lemma digitsOf_chars: "set (digitsOf n) \<subseteq> set ''0123456789''"
proof (induction n rule: digitsOf.induct)
  case (1 n)
  show ?case
  proof (cases "n < 10")
    case True
    then have "''0123456789'' ! n \<in> set ''0123456789''" by (intro nth_mem) simp
    with True show ?thesis by (subst digitsOf.simps) simp
  next
    case False
    have "''0123456789'' ! (n mod 10) \<in> set ''0123456789''" by (intro nth_mem) simp
    with 1 False show ?thesis by (subst digitsOf.simps) simp
  qed
qed


lemma digitsOf_nonempty: "digitsOf n \<noteq> []"
  by (subst digitsOf.simps) simp

lemma digitsOf_no_dot: "ch \<in> set (digitsOf n) \<Longrightarrow> ch \<noteq> CHR ''.'' \<and> ch \<noteq> CHR ''-''"
  using digitsOf_chars [of n] by auto

lemma hd_digitsOf: "hd (digitsOf n @ rest) \<noteq> CHR ''-''"
  using digitsOf_no_dot [of "hd (digitsOf n)" n] digitsOf_nonempty [of n]
  by (simp add: hd_append)

lemma parseNat_two: "a < 10 \<Longrightarrow> b < 10 \<Longrightarrow> parseNat [''0123456789'' ! a, ''0123456789'' ! b] = 10 * a + b"
  using parseNat_snoc [of "[''0123456789'' ! a]" "''0123456789'' ! b"]
  by (simp add: digit_val parseNat_def)

lemma absCents_digits:
  "absCents (digitsOf q @ ''.'' @ [''0123456789'' ! (n mod 100 div 10), ''0123456789'' ! (n mod 10)])
     = 100 * q + n mod 100"
proof -
  have nd: "\<And>ch. ch \<in> set (digitsOf q) \<Longrightarrow> ch \<noteq> CHR ''.''"
    using digitsOf_no_dot by blast
  have t: "takeWhile (\<lambda>ch. ch \<noteq> CHR ''.'') (digitsOf q @ ''.'' @ rest) = digitsOf q" for rest
    using nd by simp
  have d: "dropWhile (\<lambda>ch. ch \<noteq> CHR ''.'') (digitsOf q @ ''.'' @ rest) = ''.'' @ rest" for rest
    using nd by simp
  have "n mod 10 = n mod 100 mod 10"
    by (simp add: mod_mod_cancel)
  then have two: "10 * (n mod 100 div 10) + n mod 10 = n mod 100"
    by simp
  have "n mod 100 < 10 * 10" by simp
  then have a: "n mod 100 div 10 < 10"
    by (simp only: div_less_iff_less_mult zero_less_numeral)
  have b: "n mod 10 < 10" by simp
  show ?thesis
    unfolding absCents_def Let_def t d
    using two by (simp add: parseNat_digitsOf parseNat_two [OF a b])
qed


lemma absCents_showHundredths: "absCents (showHundredths n) = n"
  unfolding showHundredths_def by (simp only: absCents_digits) simp

lemma toFixed2_exact:
  assumes "\<bar>c\<bar> < 100 * 2 ^ 46"
  shows "toFixed2 nts c = (if c < 0 then ''-'' else []) @ showHundredths (nat \<bar>c\<bar>)"
proof -
  define a where "a = \<bar>c\<bar>"
  have a: "0 \<le> a" "a < 100 * 2 ^ 46" using assms by (simp_all add: a_def)
  have r: "\<lfloor>fl (of_int a / 100) * 100 + 1 / 2\<rfloor> = a" using a by (rule toFixed_round)
  have b: "0 \<le> fl (of_int a / 100)" "fl (of_int a / 100) < 10 ^ 21"
    using fl_div100_bound [OF a] by simp_all
  show ?thesis
  proof (cases "c < 0")
    case False
    then have "of_int c = (of_int a :: rat)" by (simp add: a_def)
    then have x: "fl (of_int c / 100) = fl (of_int a / 100)" by simp
    have "\<bar>fl (of_int a / 100)\<bar> = fl (of_int a / 100)" using b(1) by simp
    with False b r show ?thesis
      unfolding toFixed2_def Let_def x by (simp add: a_def)
  next
    case True
    then have "of_int c / 100 = - (of_int a / 100 :: rat)" by (simp add: a_def)
    then have x: "fl (of_int c / 100) = - fl (of_int a / 100)"
      by (simp only: fl_minus)
    have "1 \<le> a" using True by (simp add: a_def)
    then have "(1::rat) \<le> of_int \<lfloor>fl (of_int a / 100) * 100 + 1 / 2\<rfloor>"
      unfolding r by simp
    also have "\<dots> \<le> fl (of_int a / 100) * 100 + 1 / 2" by (rule of_int_floor_le)
    finally have pos: "0 < fl (of_int a / 100)" by simp
    then have ab: "\<bar>- fl (of_int a / 100)\<bar> = fl (of_int a / 100)" by simp
    have neg: "- fl (of_int a / 100) < 0" using pos by simp
    have small: "\<not> 10 ^ 21 \<le> fl (of_int a / 100)" using b(2) by simp
    show ?thesis
      unfolding toFixed2_def Let_def x ab r
      using True neg small by (simp add: a_def)
  qed
qed

lemma centsOf_showHundredths:
  "centsOf ((if neg then ''-'' else []) @ showHundredths n) = (if neg then - int n else int n)"
proof (cases neg)
  case True
  then show ?thesis
    by (simp only: centsOf_def if_True append_Cons append_Nil list.case simp_thms
        absCents_showHundredths)
next
  case False
  obtain ch rest where dq: "digitsOf (n div 100) = ch # rest"
    using digitsOf_nonempty [of "n div 100"] by (cases "digitsOf (n div 100)") auto
  then have "ch \<in> set (digitsOf (n div 100))" by simp
  then have ch: "ch \<noteq> CHR ''-''" using digitsOf_no_dot by blast
  have sh: "showHundredths n = ch # (rest @ ''.''
      @ [''0123456789'' ! (n mod 100 div 10), ''0123456789'' ! (n mod 10)])"
    by (simp add: showHundredths_def dq)
  have "centsOf (showHundredths n) = int (absCents (showHundredths n))"
    using ch by (subst (1) sh) (simp add: centsOf_def sh)
  with False show ?thesis by (simp add: absCents_showHundredths)
qed

lemma centsOf_toFixed2: "\<bar>c\<bar> < 100 * 2 ^ 46 \<Longrightarrow> centsOf (toFixed2 nts c) = c"
  by (simp only: toFixed2_exact centsOf_showHundredths) simp

lemma showHundredths_chars: "set (showHundredths n) \<subseteq> set ''0123456789-.''"
proof -
  define S where "S = set ''0123456789''"
  define D where "D = set ''0123456789-.''"
  have SD: "S \<subseteq> D" and p: "CHR ''.'' \<in> D"
    by (simp_all add: S_def D_def)
  have len: "length ''0123456789'' = 10" by simp
  have "n mod 100 < 10 * 10" by simp
  then have "n mod 100 div 10 < 10"
    by (simp only: div_less_iff_less_mult zero_less_numeral)
  then have a: "''0123456789'' ! (n mod 100 div 10) \<in> S"
    unfolding S_def by (intro nth_mem) (simp only: len)
  have "n mod 10 < 10" by simp
  then have b: "''0123456789'' ! (n mod 10) \<in> S"
    unfolding S_def by (intro nth_mem) (simp only: len)
  have d: "set (digitsOf (n div 100)) \<subseteq> S"
    unfolding S_def by (rule digitsOf_chars)
  have "set (showHundredths n) \<subseteq>
          {CHR ''.''} \<union> set (digitsOf (n div 100))
          \<union> {''0123456789'' ! (n mod 100 div 10), ''0123456789'' ! (n mod 10)}"
    by (auto simp: showHundredths_def)
  also have "\<dots> \<subseteq> D"
    using SD p a b d by blast
  finally show ?thesis unfolding D_def .
qed

lemma toFixed2_chars:
  assumes "\<bar>fl (of_int c / 100)\<bar> < 10 ^ 21"
  shows "set (toFixed2 nts c) \<subseteq> set ''0123456789-.''"
proof -
  have "set (toFixed2 nts c) \<subseteq>
          {CHR ''-''} \<union> set (showHundredths (nat \<lfloor>\<bar>fl (of_int c / 100)\<bar> * 100 + 1 / 2\<rfloor>))"
    using assms by (auto simp: toFixed2_def Let_def)
  moreover have "CHR ''-'' \<in> set ''0123456789-.''" by simp
  ultimately show ?thesis
    using showHundredths_chars
      [of "nat \<lfloor>\<bar>fl (of_int c / 100)\<bar> * 100 + 1 / 2\<rfloor>"] by blast
qed

lemma toFixed2_plain:
  assumes "\<bar>fl (of_int c / 100)\<bar> < 10 ^ 21"
  shows "CHR '','' \<notin> set (toFixed2 nts c) \<and> CHR 0x22 \<notin> set (toFixed2 nts c)
       \<and> CHR 0x0A \<notin> set (toFixed2 nts c)"
proof -
  have "CHR '','' \<notin> set ''0123456789-.'' \<and> CHR 0x22 \<notin> set ''0123456789-.''
        \<and> CHR 0x0A \<notin> set ''0123456789-.''"
    by simp
  with toFixed2_chars [OF assms, of nts] show ?thesis by blast
qed

lemma length_csvRows:
  "length (csvRows nts h es) = 1 + (\<Sum>e\<leftarrow>es. length (filter (\<lambda>s. 0 < amount s) (splits e)))"
  by (simp add: csvRows_def expenseRows_def length_concat o_def)

lemma expenseRows_nonzero:
  "expenseRows nts h (e\<lparr>splits := filter (\<lambda>s. amount s \<noteq> 0) (splits e)\<rparr>) = expenseRows nts h e"
proof -
  have "filter (\<lambda>s. 0 < amount s) (filter (\<lambda>s. amount s \<noteq> 0) (splits e))
          = filter (\<lambda>s. 0 < amount s) (splits e)"
    by (induction "splits e") (auto intro: filter_cong)
  then show ?thesis
    by (simp add: expenseRows_def csvRow_def)
qed

lemma formatCSVCell_plain:
  "CHR '','' \<notin> set cell \<Longrightarrow> CHR 0x22 \<notin> set cell \<Longrightarrow> CHR 0x0A \<notin> set cell \<Longrightarrow>
   formatCSVCell cell = cell"
  by (simp add: formatCSVCell_def)

lemma formatCSVCell_quoted:
  "CHR '','' \<in> set cell \<or> CHR 0x22 \<in> set cell \<or> CHR 0x0A \<in> set cell \<Longrightarrow>
   formatCSVCell cell = [CHR 0x22] @ doubleQuotes cell @ [CHR 0x22]"
  by (auto simp: formatCSVCell_def)

lemma amount_le_sum:
  "\<forall>s \<in> set ss. 0 \<le> amount s \<Longrightarrow> s \<in> set ss \<Longrightarrow> amount s \<le> sum_list (map amount ss)"
proof (induction ss)
  case Nil
  then show ?case by simp
next
  case (Cons x ss)
  have "0 \<le> sum_list (map amount ss)"
    using Cons.prems(1) by (intro sum_list_nonneg) auto
  with Cons show ?case by auto
qed

lemma sum_split_column:
  assumes "\<forall>s \<in> set (splits e). 0 \<le> amount s"
    and "sum_list (map amount (splits e)) = e_amount e"
    and "e_amount e < 100 * 2 ^ 46"
  shows "(\<Sum>row\<leftarrow>expenseRows nts h e. centsOf (row ! 7)) = e_amount e"
proof -
  have small: "\<bar>amount s\<bar> < 100 * 2 ^ 46" if "s \<in> set (splits e)" for s
    using that assms amount_le_sum [of "splits e" s] by auto
  have "map (\<lambda>row. centsOf (row ! 7)) (expenseRows nts h e)
        = map amount (filter (\<lambda>s. 0 < amount s) (splits e))"
    unfolding expenseRows_def map_map
  proof (rule map_cong)
    fix s assume "s \<in> set (filter (\<lambda>s. 0 < amount s) (splits e))"
    then have "s \<in> set (splits e)" by simp
    then have "centsOf (toFixed2 nts (amount s)) = amount s"
      using small by (intro centsOf_toFixed2) blast
    then show "((\<lambda>row. centsOf (row ! 7)) \<circ> csvRow nts h e) s = amount s"
      by (simp add: csvRow_def)
  qed simp
  then have "(\<Sum>row\<leftarrow>expenseRows nts h e. centsOf (row ! 7))
        = sum_list (map amount (filter (\<lambda>s. 0 < amount s) (splits e)))"
    by simp
  with assms(1,2) show ?thesis
    by (simp add: sum_list_filter_pos)
qed

lemma total_column:
  "row \<in> set (expenseRows nts h e) \<Longrightarrow> \<bar>e_amount e\<bar> < 100 * 2 ^ 46 \<Longrightarrow> centsOf (row ! 3) = e_amount e"
  by (auto simp: expenseRows_def csvRow_def centsOf_toFixed2)

text \<open>
  Claim C6, as the code has it. The export has the header line and one data row for
  each split with a positive amount, expense by expense; splits of amount zero add no
  row. In every row the id, description, category, payer and split member cells are
  passed through \<open>formatCSVCell\<close>, which leaves a text without comma, quote and line
  feed as it is and otherwise puts it in double quotes with every quote inside doubled;
  the two amount cells, when printed in decimal form, never contain these characters.
  For an expense whose splits are not negative and add up to its amount, the amount being
  below 100 * 2^46 cents, the total-amount cell of each of its rows reads the amount,
  and the split-amount cells of its rows add up to it.
\<close>

theorem csv_export_rows:
  "length (csvRows nts h es) = 1 + (\<Sum>e\<leftarrow>es. length (filter (\<lambda>s. 0 < amount s) (splits e)))
   \<and> tl (csvRows nts h es) = concat (map (\<lambda>e. map (join '','') (expenseRows nts h e)) es)
   \<and> (handleExportCSV nts h es = None \<longleftrightarrow> es = [])
   \<and> (\<forall>e. expenseRows nts h (e\<lparr>splits := filter (\<lambda>s. amount s \<noteq> 0) (splits e)\<rparr>)
            = expenseRows nts h e)
   \<and> (\<forall>e. \<forall>row \<in> set (expenseRows nts h e).
         length row = 8
         \<and> row ! 0 = formatCSVCell (e_id e)
         \<and> row ! 2 = formatCSVCell (e_description e)
         \<and> row ! 3 = toFixed2 nts (e_amount e)
         \<and> row ! 4 = formatCSVCell (categoryNameOr (getCategory h (e_categoryId e)))
         \<and> row ! 5 = formatCSVCell (memberNameOr (getMember h (e_memberId e)))
         \<and> (\<exists>s \<in> set (splits e). 0 < amount s
               \<and> row ! 6 = formatCSVCell (memberNameOr (getMember h (memberId s)))
               \<and> row ! 7 = toFixed2 nts (amount s)))
   \<and> (\<forall>cell.
         (CHR '','' \<in> set cell \<or> CHR 0x22 \<in> set cell \<or> CHR 0x0A \<in> set cell
            \<longrightarrow> formatCSVCell cell = [CHR 0x22] @ doubleQuotes cell @ [CHR 0x22])
         \<and> (CHR '','' \<notin> set cell \<and> CHR 0x22 \<notin> set cell \<and> CHR 0x0A \<notin> set cell
            \<longrightarrow> formatCSVCell cell = cell))
   \<and> (\<forall>c. \<bar>fl (of_int c / 100)\<bar> < 10 ^ 21
         \<longrightarrow> CHR '','' \<notin> set (toFixed2 nts c) \<and> CHR 0x22 \<notin> set (toFixed2 nts c)
             \<and> CHR 0x0A \<notin> set (toFixed2 nts c))
   \<and> (\<forall>e. (\<forall>s \<in> set (splits e). 0 \<le> amount s)
            \<and> sum_list (map amount (splits e)) = e_amount e
            \<and> e_amount e < 100 * 2 ^ 46
         \<longrightarrow> (\<forall>row \<in> set (expenseRows nts h e). centsOf (row ! 3) = e_amount e)
             \<and> (\<Sum>row\<leftarrow>expenseRows nts h e. centsOf (row ! 7)) = e_amount e)"
proof (intro conjI allI ballI impI)
  show "length (csvRows nts h es)
          = 1 + (\<Sum>e\<leftarrow>es. length (filter (\<lambda>s. 0 < amount s) (splits e)))"
    by (rule length_csvRows)
  show "tl (csvRows nts h es) = concat (map (\<lambda>e. map (join '','') (expenseRows nts h e)) es)"
    by (simp add: csvRows_def map_concat o_def)
  show "(handleExportCSV nts h es = None) = (es = [])"
    by (simp add: handleExportCSV_def)
  show "expenseRows nts h (e\<lparr>splits := filter (\<lambda>s. amount s \<noteq> 0) (splits e)\<rparr>)
          = expenseRows nts h e"
    for e
    by (rule expenseRows_nonzero)
next
  fix e row assume "row \<in> set (expenseRows nts h e)"
  then obtain s where s: "s \<in> set (splits e)" "0 < amount s" and row: "row = csvRow nts h e s"
    by (auto simp: expenseRows_def)
  show "length row = 8" by (simp add: row csvRow_def)
  show "row ! 0 = formatCSVCell (e_id e)" by (simp add: row csvRow_def)
  show "row ! 2 = formatCSVCell (e_description e)" by (simp add: row csvRow_def)
  show "row ! 3 = toFixed2 nts (e_amount e)" by (simp add: row csvRow_def)
  show "row ! 4 = formatCSVCell (categoryNameOr (getCategory h (e_categoryId e)))"
    by (simp add: row csvRow_def)
  show "row ! 5 = formatCSVCell (memberNameOr (getMember h (e_memberId e)))"
    by (simp add: row csvRow_def)
  show "\<exists>s \<in> set (splits e). 0 < amount s
          \<and> row ! 6 = formatCSVCell (memberNameOr (getMember h (memberId s)))
          \<and> row ! 7 = toFixed2 nts (amount s)"
    using s by (intro bexI [of _ s]) (simp_all add: row csvRow_def)
next
  fix cell
  show "formatCSVCell cell = [CHR 0x22] @ doubleQuotes cell @ [CHR 0x22]"
    if "CHR '','' \<in> set cell \<or> CHR 0x22 \<in> set cell \<or> CHR 0x0A \<in> set cell"
    using that by (rule formatCSVCell_quoted)
  show "formatCSVCell cell = cell"
    if "CHR '','' \<notin> set cell \<and> CHR 0x22 \<notin> set cell \<and> CHR 0x0A \<notin> set cell"
    using that by (simp add: formatCSVCell_plain)
next
  fix c :: int
  assume "\<bar>fl (of_int c / 100)\<bar> < 10 ^ 21"
  then show "CHR '','' \<notin> set (toFixed2 nts c)" "CHR 0x22 \<notin> set (toFixed2 nts c)"
    "CHR 0x0A \<notin> set (toFixed2 nts c)"
    using toFixed2_plain [of c nts] by simp_all
next
  fix e :: Expense
  assume a: "(\<forall>s \<in> set (splits e). 0 \<le> amount s)
             \<and> sum_list (map amount (splits e)) = e_amount e
             \<and> e_amount e < 100 * 2 ^ 46"
  then have "0 \<le> sum_list (map amount (splits e))"
    by (intro sum_list_nonneg) auto
  with a have small: "\<bar>e_amount e\<bar> < 100 * 2 ^ 46" by simp
  show "centsOf (row ! 3) = e_amount e" if "row \<in> set (expenseRows nts h e)" for row
    using that small by (rule total_column)
  show "(\<Sum>row\<leftarrow>expenseRows nts h e. centsOf (row ! 7)) = e_amount e"
    using a by (intro sum_split_column) simp_all
qed

theorem csv_export_rows_witness:
  "map amount (splits pizzaExpense) = [501, 500, 0]
   \<and> sum_list (map amount (splits pizzaExpense)) = e_amount pizzaExpense
   \<and> e_amount pizzaExpense < 100 * 2 ^ 46
   \<and> \<bar>fl (of_int (e_amount pizzaExpense) / 100)\<bar> < 10 ^ 21
   \<and> expenseRows exponentForm marchHousehold pizzaExpense =
       [[''exp-9'', ''2025-03-14'',
         [CHR 0x22] @ ''Pizza, '' @ [CHR 0x22, CHR 0x22] @ ''XL'' @ [CHR 0x22, CHR 0x22, CHR 0x22],
         ''10.01'', [CHR 0x22] @ ''Fun, Games'' @ [CHR 0x22], ''Alex'', ''Alex'', ''5.01''],
        [''exp-9'', ''2025-03-14'',
         [CHR 0x22] @ ''Pizza, '' @ [CHR 0x22, CHR 0x22] @ ''XL'' @ [CHR 0x22, CHR 0x22, CHR 0x22],
         ''10.01'', [CHR 0x22] @ ''Fun, Games'' @ [CHR 0x22], ''Alex'', ''Bea'', ''5.00'']]
   \<and> length (csvRows exponentForm marchHousehold [pizzaExpense]) = 3
   \<and> (\<Sum>row\<leftarrow>expenseRows exponentForm marchHousehold pizzaExpense. centsOf (row ! 7)) = 1001
   \<and> centsOf ''10.01'' = 1001
   \<and> CHR '','' \<notin> set (toFixed2 exponentForm (e_amount pizzaExpense))"
proof -
  have amounts: "map amount (splits pizzaExpense) = [501, 500, 0]"
    by (simp add: pizzaExpense_def)
  have nonneg: "\<forall>s \<in> set (splits pizzaExpense). 0 \<le> amount s"
    by (simp add: pizzaExpense_def)
  have total: "sum_list (map amount (splits pizzaExpense)) = e_amount pizzaExpense"
    by (simp add: pizzaExpense_def)
  have amt: "e_amount pizzaExpense = 1001"
    by (simp add: pizzaExpense_def)
  have small: "e_amount pizzaExpense < 100 * 2 ^ 46"
    by (simp add: amt)
  have fin: "\<bar>fl (of_int (e_amount pizzaExpense) / 100)\<bar> < 10 ^ 21"
    unfolding amt by code_simp
  have rows: "expenseRows exponentForm marchHousehold pizzaExpense =
       [[''exp-9'', ''2025-03-14'',
         [CHR 0x22] @ ''Pizza, '' @ [CHR 0x22, CHR 0x22] @ ''XL'' @ [CHR 0x22, CHR 0x22, CHR 0x22],
         ''10.01'', [CHR 0x22] @ ''Fun, Games'' @ [CHR 0x22], ''Alex'', ''Alex'', ''5.01''],
        [''exp-9'', ''2025-03-14'',
         [CHR 0x22] @ ''Pizza, '' @ [CHR 0x22, CHR 0x22] @ ''XL'' @ [CHR 0x22, CHR 0x22, CHR 0x22],
         ''10.01'', [CHR 0x22] @ ''Fun, Games'' @ [CHR 0x22], ''Alex'', ''Bea'', ''5.00'']]"
    by code_simp
  have cents: "centsOf ''10.01'' = 1001"
    by code_simp
  note T = csv_export_rows [of exponentForm marchHousehold "[pizzaExpense]"]
  from T have len: "length (csvRows exponentForm marchHousehold [pizzaExpense])
      = 1 + (\<Sum>e\<leftarrow>[pizzaExpense]. length (filter (\<lambda>s. 0 < amount s) (splits e)))"
    by (rule conjunct1)
  have three: "length (csvRows exponentForm marchHousehold [pizzaExpense]) = 3"
    unfolding len by (simp add: pizzaExpense_def)
  from T have "\<forall>c. \<bar>fl (of_int c / 100)\<bar> < 10 ^ 21
         \<longrightarrow> CHR '','' \<notin> set (toFixed2 exponentForm c)
             \<and> CHR 0x22 \<notin> set (toFixed2 exponentForm c)
             \<and> CHR 0x0A \<notin> set (toFixed2 exponentForm c)"
    by blast
  then have "\<bar>fl (of_int (e_amount pizzaExpense) / 100)\<bar> < 10 ^ 21
         \<longrightarrow> CHR '','' \<notin> set (toFixed2 exponentForm (e_amount pizzaExpense))
             \<and> CHR 0x22 \<notin> set (toFixed2 exponentForm (e_amount pizzaExpense))
             \<and> CHR 0x0A \<notin> set (toFixed2 exponentForm (e_amount pizzaExpense))"
    by (rule spec)
  with fin have plain: "CHR '','' \<notin> set (toFixed2 exponentForm (e_amount pizzaExpense))"
    by blast
  from T have "\<forall>e. (\<forall>s \<in> set (splits e). 0 \<le> amount s)
            \<and> sum_list (map amount (splits e)) = e_amount e
            \<and> e_amount e < 100 * 2 ^ 46
         \<longrightarrow> (\<forall>row \<in> set (expenseRows exponentForm marchHousehold e).
                centsOf (row ! 3) = e_amount e)
             \<and> (\<Sum>row\<leftarrow>expenseRows exponentForm marchHousehold e. centsOf (row ! 7))
                 = e_amount e"
    by blast
  then have "(\<forall>s \<in> set (splits pizzaExpense). 0 \<le> amount s)
            \<and> sum_list (map amount (splits pizzaExpense)) = e_amount pizzaExpense
            \<and> e_amount pizzaExpense < 100 * 2 ^ 46
         \<longrightarrow> (\<forall>row \<in> set (expenseRows exponentForm marchHousehold pizzaExpense).
                centsOf (row ! 3) = e_amount pizzaExpense)
             \<and> (\<Sum>row\<leftarrow>expenseRows exponentForm marchHousehold pizzaExpense. centsOf (row ! 7))
                 = e_amount pizzaExpense"
    by (rule spec)
  with nonneg total small have
    "(\<Sum>row\<leftarrow>expenseRows exponentForm marchHousehold pizzaExpense. centsOf (row ! 7))
       = e_amount pizzaExpense"
    by blast
  then have sum:
    "(\<Sum>row\<leftarrow>expenseRows exponentForm marchHousehold pizzaExpense. centsOf (row ! 7)) = 1001"
    by (simp only: amt)
  from amounts total small fin rows three sum cents plain show ?thesis
    by (intro conjI)
qed

text \<open>
  The claim as written asks only that the splits add up to the amount. The expense with
  a negative share has such splits; its single row shows 10.00 as the total and 15.00 as
  the only share. The expense of 7036874417766402 cents has them too; the quotient by 100
  is a double with six binary places, so the share ending in 01 is printed with 02: its
  rows show 70368744177664.02 as the total, and 70368744177664.02 and 0.01 as shares.
\<close>

theorem csv_export_negative_share:
  "sum_list (map amount (splits refundExpense)) = e_amount refundExpense
   \<and> expenseRows exponentForm marchHousehold refundExpense =
       [[''exp-10'', ''2025-03-14'', ''Dinner'', ''10.00'', ''Groceries'', ''Alex'', ''Alex'',
         ''15.00'']]
   \<and> centsOf ''15.00'' \<noteq> centsOf ''10.00''
   \<and> sum_list (map amount (splits hugeExpense)) = e_amount hugeExpense
   \<and> map amount (splits hugeExpense) = [7036874417766401, 1]
   \<and> expenseRows exponentForm marchHousehold hugeExpense =
       [[''exp-11'', ''2025-03-14'', ''Estate'', ''70368744177664.02'', ''Groceries'', ''Alex'',
         ''Alex'', ''70368744177664.02''],
        [''exp-11'', ''2025-03-14'', ''Estate'', ''70368744177664.02'', ''Groceries'', ''Alex'',
         ''Bea'', ''0.01'']]
   \<and> centsOf ''70368744177664.02'' + centsOf ''0.01'' \<noteq> centsOf ''70368744177664.02''"
proof (intro conjI)
  show "sum_list (map amount (splits refundExpense)) = e_amount refundExpense"
    by (simp add: refundExpense_def)
  show "expenseRows exponentForm marchHousehold refundExpense =
       [[''exp-10'', ''2025-03-14'', ''Dinner'', ''10.00'', ''Groceries'', ''Alex'', ''Alex'',
         ''15.00'']]"
    by code_simp
  show "centsOf ''15.00'' \<noteq> centsOf ''10.00''"
    by code_simp
  show "sum_list (map amount (splits hugeExpense)) = e_amount hugeExpense"
    by (simp add: hugeExpense_def)
  show "map amount (splits hugeExpense) = [7036874417766401, 1]"
    by (simp add: hugeExpense_def)
  have r1: "\<lfloor>\<bar>fl (of_int 7036874417766401 / 100)\<bar> * 100 + 1 / 2\<rfloor> = 7036874417766402"
    by code_simp
  have r2: "\<lfloor>\<bar>fl (of_int 7036874417766402 / 100)\<bar> * 100 + 1 / 2\<rfloor> = 7036874417766402"
    by code_simp
  have b1: "\<not> fl (of_int 7036874417766401 / 100) < 0
            \<and> \<not> 10 ^ 21 \<le> \<bar>fl (of_int 7036874417766401 / 100)\<bar>"
    by code_simp
  have b2: "\<not> fl (of_int 7036874417766402 / 100) < 0
            \<and> \<not> 10 ^ 21 \<le> \<bar>fl (of_int 7036874417766402 / 100)\<bar>"
    by code_simp
  have shown: "showHundredths 7036874417766402 = ''70368744177664.02''"
    by (simp add: showHundredths_def digitsOf.simps)
  have a1: "toFixed2 exponentForm 7036874417766401 = ''70368744177664.02''"
    unfolding toFixed2_def Let_def using b1 by (simp only: r1 if_False) (simp add: shown)
  have a2: "toFixed2 exponentForm 7036874417766402 = ''70368744177664.02''"
    unfolding toFixed2_def Let_def using b2 by (simp only: r2 if_False) (simp add: shown)
  have a3: "toFixed2 exponentForm 1 = ''0.01''"
    by code_simp
  show "expenseRows exponentForm marchHousehold hugeExpense =
       [[''exp-11'', ''2025-03-14'', ''Estate'', ''70368744177664.02'', ''Groceries'', ''Alex'',
         ''Alex'', ''70368744177664.02''],
        [''exp-11'', ''2025-03-14'', ''Estate'', ''70368744177664.02'', ''Groceries'', ''Alex'',
         ''Bea'', ''0.01'']]"
    by (simp add: expenseRows_def csvRow_def hugeExpense_def a1 a2 a3 formatCSVCell_def
        marchHousehold_def getCategory_def getMember_def categoryNameOr_def memberNameOr_def
        abc_def)
  show "centsOf ''70368744177664.02'' + centsOf ''0.01'' \<noteq> centsOf ''70368744177664.02''"
    by (simp add: centsOf_def absCents_def parseNat_def)
qed

end
